theory Spec2Isabelle
  imports Main
begin

section \<open>Strings\<close>

text \<open>
  A Go \<open>string\<close> is a sequence of bytes; it is modelled as a \<open>char list\<close>, one
  \<open>char\<close> per byte.  \<open>strings.HasPrefix\<close> and \<open>strings.Contains\<close> of the Go
  standard library compare bytes.
\<close>

fun HasPrefix :: "string \<Rightarrow> string \<Rightarrow> bool" where
  "HasPrefix s [] = True"
| "HasPrefix [] (p # ps) = False"
| "HasPrefix (c # s) (p # ps) = (c = p \<and> HasPrefix s ps)"

fun strings_Contains :: "string \<Rightarrow> string \<Rightarrow> bool" where
  "strings_Contains [] substr = (substr = [])"
| "strings_Contains (c # s) substr = (HasPrefix (c # s) substr \<or> strings_Contains s substr)"

section \<open>backend/hybridzfs: IsPartialFile\<close>

text \<open>
  \<open>IsPartialFile\<close> hands the pattern \<^verbatim>\<open>^.*\.[a-f0-9]{8}\.partial$\<close> to
  \<open>regexp.MatchString\<close>.  The pattern is given here as the syntax tree Go's
  \<open>regexp/syntax\<close> parses it to, over the operators the pattern uses.  Go compiles a
  pattern with the Perl flags: \<open>^\<close> and \<open>$\<close> match at the beginning and at the end of
  the text only, and \<open>.\<close> matches every character but the newline.

  Go matches on runes decoded from the bytes.  Every byte below 128 is a rune of its own
  and never part of a longer encoding, an undecodable byte is one rune, and \<open>.\<close> matches
  every rune but the newline; the pattern's literals and its class are ASCII.  So a match
  on runes is a match on bytes, the way the matcher below reads the text.
\<close>

datatype regex =
    BeginText
  | EndText
  | AnyCharNotNL
  | Literal string
  | CharClass "(char \<times> char) list"
  | Star regex
  | Repeat nat regex
  | Concat regex regex

definition newline :: char where
  "newline = CHR 0x0A"

fun in_class :: "char \<Rightarrow> (char \<times> char) list \<Rightarrow> bool" where
  "in_class c [] = False"
| "in_class c ((lo, hi) # rs) =
     (((of_char lo :: nat) \<le> of_char c \<and> (of_char c :: nat) \<le> of_char hi) \<or> in_class c rs)"

text \<open>
  A matcher state is the number of bytes consumed and the text that is left.  \<open>run r st\<close>
  lists every state a match of \<open>r\<close> that begins at \<open>st\<close> can end in.  \<open>rep n f\<close> chains
  exactly \<open>n\<close> matches, \<open>iter n f\<close> at most \<open>n\<close>: a star never needs more iterations than
  there are bytes left, since an iteration that consumes nothing ends in the state it
  began in.
\<close>

type_synonym mstate = "nat \<times> string"

primrec rep :: "nat \<Rightarrow> ('a \<Rightarrow> 'a list) \<Rightarrow> 'a \<Rightarrow> 'a list" where
  "rep 0 f x = [x]"
| "rep (Suc n) f x = concat (map (rep n f) (f x))"

primrec iter :: "nat \<Rightarrow> ('a \<Rightarrow> 'a list) \<Rightarrow> 'a \<Rightarrow> 'a list" where
  "iter 0 f x = [x]"
| "iter (Suc n) f x = x # concat (map (iter n f) (f x))"

primrec run :: "regex \<Rightarrow> mstate \<Rightarrow> mstate list" where
  "run BeginText = (\<lambda>st. if fst st = 0 then [st] else [])"
| "run EndText = (\<lambda>st. if snd st = [] then [st] else [])"
| "run AnyCharNotNL =
     (\<lambda>st. case snd st of [] \<Rightarrow> []
           | c # cs \<Rightarrow> if c \<noteq> newline then [(Suc (fst st), cs)] else [])"
| "run (Literal l) =
     (\<lambda>st. if HasPrefix (snd st) l then [(fst st + length l, drop (length l) (snd st))]
           else [])"
| "run (CharClass rs) =
     (\<lambda>st. case snd st of [] \<Rightarrow> []
           | c # cs \<Rightarrow> if in_class c rs then [(Suc (fst st), cs)] else [])"
| "run (Star r) = (\<lambda>st. iter (length (snd st)) (run r) st)"
| "run (Repeat n r) = rep n (run r)"
| "run (Concat r1 r2) = (\<lambda>st. concat (map (run r2) (run r1 st)))"

text \<open>
  \<open>regexp.MatchString\<close> reports whether the text contains a match: one that begins at any
  position of the text.
\<close>

definition MatchString :: "regex \<Rightarrow> string \<Rightarrow> bool" where
  "MatchString r s = list_ex (\<lambda>i. run r (i, drop i s) \<noteq> []) [0 ..< Suc (length s)]"

definition hexclass :: "(char \<times> char) list" where
  "hexclass = [(CHR ''a'', CHR ''f''), (CHR ''0'', CHR ''9'')]"

definition patten :: regex where
  "patten =
     Concat BeginText
       (Concat (Star AnyCharNotNL)
         (Concat (Literal ''.'')
           (Concat (Repeat 8 (CharClass hexclass))
             (Concat (Literal ''.partial'') EndText))))"

text \<open>The pattern compiles, so the error branch of the source is never taken.\<close>

definition IsPartialFile :: "string \<Rightarrow> bool" where
  "IsPartialFile name = MatchString patten name"

text \<open>The characters the class \<^verbatim>\<open>[a-f0-9]\<close> stands for, written out.\<close>

definition lower_hex :: "char \<Rightarrow> bool" where
  "lower_hex c = (c \<in> set ''abcdef0123456789'')"

section \<open>fs/dbmeta: rows, errors and the store\<close>

text \<open>
  Modelled from the spec: the entry kinds \<open>fs.EntryDirectory\<close> and \<open>fs.EntryObject\<close>.
  \<open>fs.EntryType\<close> is an integer type declared outside the files at hand; the table
  stores it in an integer column.  Only that the two kinds differ matters below.
\<close>

type_synonym EntryType = int

definition EntryDirectory :: EntryType where
  "EntryDirectory = 0"

definition EntryObject :: EntryType where
  "EntryObject = 1"

text \<open>
  The structs of the source.  \<open>int64\<close> and \<open>int32\<close> fields are integers: the code
  stores and compares them and never computes with them.  Times are Unix times, a byte
  slice is a list of bytes, \<open>ranges.Ranges\<close> a list of (position, size) pairs.
\<close>

record Info =
  ModTime :: int
  ATime :: int
  Size :: int
  Rs :: "(int \<times> int) list"
  Fingerprint :: string
  Dirty :: bool

record Item =
  ParentPath :: string
  Name :: string
  Type :: EntryType
  Size :: int
  State :: int
  Sha1 :: string
  CreatedAt :: int
  UpdatedAt :: int
  Info :: string

text \<open>\<open>var info Info\<close>: the zero value of the struct.\<close>

definition zero_Info :: Info where
  "zero_Info = \<lparr>ModTime = 0, ATime = 0, Size = 0, Rs = [], Fingerprint = [], Dirty = False\<rparr>"

text \<open>
  A Go \<open>error\<close> is a value that carries a message.  These are the errors the operations
  can return: the decoder's, gorm's \<open>ErrRecordNotFound\<close>, the two SQLite reports a
  statement of this table can end in, and the failures of the store itself (the deadline
  of the context, an I/O failure).
\<close>

datatype error =
    UnmarshalError string
  | ErrRecordNotFound
  | UniqueConstraintFailed
  | NoSuchColumn string
  | DeadlineExceeded
  | StoreUnavailable

fun Error :: "error \<Rightarrow> string" where
  "Error (UnmarshalError m) = m"
| "Error ErrRecordNotFound = ''record not found''"
| "Error UniqueConstraintFailed =
     ''UNIQUE constraint failed: item_list.parent_path, item_list.name''"
| "Error (NoSuchColumn c) = ''no such column: '' @ c"
| "Error DeadlineExceeded = ''context deadline exceeded''"
| "Error StoreUnavailable = ''disk I/O error''"

definition ErrorOfUniqueKeyExist :: string where
  "ErrorOfUniqueKeyExist = ''UNIQUE constraint failed''"

text \<open>
  The store is the table \<open>item_list\<close> and its environment.  The table is the list of
  its rows in the order a scan returns them.  The unique index on (parent_path, name) is
  the invariant \<open>unique_index\<close>; the statements below keep it.  The environment is a
  script of faults: every statement sent to the store takes the next entry of the script,
  and fails with that fault, changing nothing, when the entry holds one.  An exhausted
  script holds no fault.
\<close>

datatype fault = Deadline | Unavailable

fun fault_error :: "fault \<Rightarrow> error" where
  "fault_error Deadline = DeadlineExceeded"
| "fault_error Unavailable = StoreUnavailable"

record store =
  rows :: "Item list"
  faults :: "fault option list"

definition key :: "Item \<Rightarrow> string \<times> string" where
  "key r = (ParentPath r, Name r)"

definition unique_index :: "Item list \<Rightarrow> bool" where
  "unique_index t = distinct (map key t)"

text \<open>
  A column assignment of an UPDATE: the entries of the \<open>map[string]interface{}\<close> that
  \<open>Updates\<close> and \<open>clause.Assignments\<close> take, one constructor per column of the table,
  with a value of the column's type.  \<open>Set_other c\<close> names a column \<open>c\<close> the table does
  not have.  A Go map holds a column once; a list that repeats one applies the
  assignments in order.
\<close>

datatype assignment =
    Set_parent_path string
  | Set_name string
  | Set_type EntryType
  | Set_size int
  | Set_state int
  | Set_sha1 string
  | Set_created_at int
  | Set_updated_at int
  | Set_info string
  | Set_other string

fun column_of :: "assignment \<Rightarrow> string" where
  "column_of (Set_parent_path v) = ''parent_path''"
| "column_of (Set_name v) = ''name''"
| "column_of (Set_type v) = ''type''"
| "column_of (Set_size v) = ''size''"
| "column_of (Set_state v) = ''state''"
| "column_of (Set_sha1 v) = ''sha1''"
| "column_of (Set_created_at v) = ''created_at''"
| "column_of (Set_updated_at v) = ''updated_at''"
| "column_of (Set_info v) = ''info''"
| "column_of (Set_other c) = c"

fun set_column :: "assignment \<Rightarrow> Item \<Rightarrow> Item" where
  "set_column (Set_parent_path v) r = r\<lparr>ParentPath := v\<rparr>"
| "set_column (Set_name v) r = r\<lparr>Name := v\<rparr>"
| "set_column (Set_type v) r = r\<lparr>Type := v\<rparr>"
| "set_column (Set_size v) r = r\<lparr>Size := v\<rparr>"
| "set_column (Set_state v) r = r\<lparr>State := v\<rparr>"
| "set_column (Set_sha1 v) r = r\<lparr>Sha1 := v\<rparr>"
| "set_column (Set_created_at v) r = r\<lparr>CreatedAt := v\<rparr>"
| "set_column (Set_updated_at v) r = r\<lparr>UpdatedAt := v\<rparr>"
| "set_column (Set_info v) r = r\<lparr>Info := v\<rparr>"
| "set_column (Set_other c) r = r"

fun unknown_column :: "assignment list \<Rightarrow> string option" where
  "unknown_column [] = None"
| "unknown_column (Set_other c # as) = Some c"
| "unknown_column (a # as) = unknown_column as"

subsection \<open>The statements, on the table alone\<close>

text \<open>
  \<^verbatim>\<open>INSERT ... ON CONFLICT (parent_path, name) DO UPDATE SET ...\<close>: the row is appended
  when no row has its key; otherwise the assignments are applied to the row that has it.
\<close>

definition sql_insert_on_conflict ::
  "assignment list \<Rightarrow> Item \<Rightarrow> Item list \<Rightarrow> error + Item list" where
  "sql_insert_on_conflict doUpdates item t =
     (case unknown_column doUpdates of
        Some c \<Rightarrow> Inl (NoSuchColumn c)
      | None \<Rightarrow>
          if list_ex (\<lambda>r. key r = key item) t
          then Inr (map (\<lambda>r. if key r = key item then fold set_column doUpdates r else r) t)
          else Inr (t @ [item]))"

text \<open>\<^verbatim>\<open>DELETE FROM item_list WHERE parent_path=? and name=?\<close>\<close>

definition sql_delete :: "string \<times> string \<Rightarrow> Item list \<Rightarrow> error + Item list" where
  "sql_delete k t = Inr (filter (\<lambda>r. key r \<noteq> k) t)"

text \<open>
  \<^verbatim>\<open>UPDATE item_list SET ... WHERE parent_path=? and name=?\<close>: a column the table does
  not have fails the statement; so does a key that another row holds already, and the
  statement then changes nothing.
\<close>

definition sql_update ::
  "string \<times> string \<Rightarrow> assignment list \<Rightarrow> Item list \<Rightarrow> error + Item list" where
  "sql_update k as t =
     (case unknown_column as of
        Some c \<Rightarrow> Inl (NoSuchColumn c)
      | None \<Rightarrow>
          let t' = map (\<lambda>r. if key r = k then fold set_column as r else r) t
          in if unique_index t' then Inr t' else Inl UniqueConstraintFailed)"

subsection \<open>The calls of gorm, on the store\<close>

text \<open>
  A statement sent to the store: the next entry of the script of faults decides whether
  the store fails it; otherwise the statement runs on the table, and changes it unless
  the statement itself ends in an error.
\<close>

definition exec :: "(Item list \<Rightarrow> error + Item list) \<Rightarrow> store \<Rightarrow> error option \<times> store" where
  "exec stmt s =
     (case faults s of
        Some f # fs \<Rightarrow> (Some (fault_error f), s\<lparr>faults := fs\<rparr>)
      | _ \<Rightarrow>
          (case stmt (rows s) of
             Inl e \<Rightarrow> (Some e, s\<lparr>faults := tl (faults s)\<rparr>)
           | Inr t \<Rightarrow> (None, \<lparr>rows = t, faults = tl (faults s)\<rparr>)))"

text \<open>
  \<open>Create\<close> with \<open>clause.OnConflict\<close>.  The tags \<open>autoCreateTime\<close> and
  \<open>autoUpdateTime\<close> of \<open>Item\<close> make gorm fill a zero \<open>CreatedAt\<close> or \<open>UpdatedAt\<close> of the
  value it inserts with its own reading of the clock, \<open>curTime\<close>.
\<close>

definition auto_time :: "int \<Rightarrow> Item \<Rightarrow> Item" where
  "auto_time curTime item =
     item\<lparr>CreatedAt := (if CreatedAt item = 0 then curTime else CreatedAt item),
          UpdatedAt := (if UpdatedAt item = 0 then curTime else UpdatedAt item)\<rparr>"

definition db_Create :: "assignment list \<Rightarrow> int \<Rightarrow> Item \<Rightarrow> store \<Rightarrow> error option \<times> store" where
  "db_Create doUpdates curTime item s =
     exec (sql_insert_on_conflict doUpdates (auto_time curTime item)) s"

definition db_Delete :: "string \<times> string \<Rightarrow> store \<Rightarrow> error option \<times> store" where
  "db_Delete k s = exec (sql_delete k) s"

text \<open>
  \<open>Updates\<close> with a map, on a table named by \<open>Table\<close>: gorm has no model of the row, so
  it sets the columns of the map and no other, and sends no statement for an empty map.
\<close>

definition db_Updates ::
  "string \<times> string \<Rightarrow> assignment list \<Rightarrow> store \<Rightarrow> error option \<times> store" where
  "db_Updates k as s = (if as = [] then (None, s) else exec (sql_update k as) s)"

text \<open>
  \<open>First\<close>: the first row of the key, or \<open>ErrRecordNotFound\<close>.  (The Go function
  returns an \<open>Item\<close> beside the error; the result here is either the row or the error.)
\<close>

definition db_First :: "string \<times> string \<Rightarrow> store \<Rightarrow> (error + Item) \<times> store" where
  "db_First k s =
     (case faults s of
        Some f # fs \<Rightarrow> (Inl (fault_error f), s\<lparr>faults := fs\<rparr>)
      | _ \<Rightarrow>
          (case find (\<lambda>r. key r = k) (rows s) of
             None \<Rightarrow> (Inl ErrRecordNotFound, s\<lparr>faults := tl (faults s)\<rparr>)
           | Some r \<Rightarrow> (Inr r, s\<lparr>faults := tl (faults s)\<rparr>)))"

text \<open>
  \<open>Transaction\<close>: BEGIN, the function, then COMMIT when the function returned no error
  and ROLLBACK when it returned one.  BEGIN and COMMIT are statements too and can fail; a
  transaction that is rolled back, or whose COMMIT fails, leaves the table as it was at
  BEGIN.
\<close>

definition db_Transaction ::
  "(store \<Rightarrow> error option \<times> store) \<Rightarrow> store \<Rightarrow> error option \<times> store" where
  "db_Transaction fc s =
     (case faults s of
        Some f # fs \<Rightarrow> (Some (fault_error f), s\<lparr>faults := fs\<rparr>)
      | _ \<Rightarrow>
          (case fc (s\<lparr>faults := tl (faults s)\<rparr>) of
             (Some e, tx) \<Rightarrow> (Some e, \<lparr>rows = rows s, faults = faults tx\<rparr>)
           | (None, tx) \<Rightarrow>
               (case faults tx of
                  Some f # fs \<Rightarrow> (Some (fault_error f), \<lparr>rows = rows s, faults = fs\<rparr>)
                | _ \<Rightarrow> (None, tx\<lparr>faults := tl (faults tx)\<rparr>))))"



section \<open>fs/dbmeta: the operations on items\<close>

text \<open>
  \<open>filepath.Split\<close> on a system whose separator is \<open>/\<close> and whose paths have no volume
  name: the index moves back from the end of the path to the last separator.  \<open>last_sep p n\<close>
  is that index plus one, searched below \<open>n\<close>.
\<close>

fun last_sep :: "string \<Rightarrow> nat \<Rightarrow> nat" where
  "last_sep p 0 = 0"
| "last_sep p (Suc i) = (if p ! i = CHR ''/'' then Suc i else last_sep p i)"

definition filepath_Split :: "string \<Rightarrow> string \<times> string" where
  "filepath_Split path = (take (last_sep path (length path)) path, drop (last_sep path (length path)) path)"

text \<open>
  The query builder, as far as the two filters go: a query is the list of its conditions,
  each the text of the condition and its argument.  \<open>fmt.Sprintf("name %s ?", operator)\<close>
  puts the operator between the two fixed parts of the text.
\<close>

record gorm_DB =
  conditions :: "(string \<times> string) list"

definition Where :: "string \<Rightarrow> string \<Rightarrow> gorm_DB \<Rightarrow> gorm_DB" where
  "Where query arg db = db\<lparr>conditions := conditions db @ [(query, arg)]\<rparr>"

definition FilterName :: "string \<Rightarrow> string \<Rightarrow> gorm_DB \<Rightarrow> gorm_DB" where
  "FilterName name operator = (\<lambda>db. Where (''name '' @ operator @ '' ?'') name db)"

definition FilterParentPath :: "string \<Rightarrow> string \<Rightarrow> gorm_DB \<Rightarrow> gorm_DB" where
  "FilterParentPath path operator = (\<lambda>db. Where (''name '' @ operator @ '' ?'') path db)"

text \<open>
  \<open>UpsertItem\<close> begins with \<open>var info Info\<close> and decodes the blob of the item into it
  when the item is an object.  \<open>json_Unmarshal\<close> is the decoder, a parameter: it gives
  the decoded \<open>Info\<close>, or the message of its error.  \<open>decoded\<close> is the \<open>info\<close> the function
  holds after that step, or the error it returns there.
\<close>

definition decoded :: "(string \<Rightarrow> string + Info) \<Rightarrow> Item \<Rightarrow> string + Info" where
  "decoded json_Unmarshal item =
     (if Type item = EntryObject then json_Unmarshal (Info item) else Inr zero_Info)"

text \<open>
  \<open>now\<close> is what \<open>time.Now().Unix()\<close> reads when the conflict clause is built; the
  clause is the list of the four assignments of \<open>DoUpdates\<close>.
\<close>

definition UpsertItem ::
  "(string \<Rightarrow> string + Info) \<Rightarrow> int \<Rightarrow> int \<Rightarrow> Item \<Rightarrow> store \<Rightarrow> error option \<times> store" where
  "UpsertItem json_Unmarshal now curTime item s =
     (case decoded json_Unmarshal item of
        Inl m \<Rightarrow> (Some (UnmarshalError m), s)
      | Inr info \<Rightarrow>
          db_Create
            [Set_updated_at now, Set_sha1 (Fingerprint info), Set_size (Info.Size info),
             Set_info (Info item)]
            curTime item s)"

definition DeleteItem :: "string \<Rightarrow> store \<Rightarrow> error option \<times> store" where
  "DeleteItem name s =
     (case filepath_Split name of (parentDir, itemName) \<Rightarrow> db_Delete (parentDir, itemName) s)"

definition ModifyItem :: "string \<Rightarrow> assignment list \<Rightarrow> store \<Rightarrow> error option \<times> store" where
  "ModifyItem name infoMap s =
     (case filepath_Split name of (parentDir, itemName) \<Rightarrow>
        db_Updates (parentDir, itemName) infoMap s)"

text \<open>
  \<open>RenameItem\<close>.  Inside the transaction a failed update returns \<open>rd.Error\<close>, the error of
  the delete, which is nil at that point: the model returns \<open>rd\<close> there as the source does.
\<close>

definition RenameItem :: "string \<Rightarrow> string \<Rightarrow> store \<Rightarrow> error option \<times> store" where
  "RenameItem oldName newName s =
     (case filepath_Split oldName of (oldParentDir, oldItemName) \<Rightarrow>
      case filepath_Split newName of (newParentDir, newItemName) \<Rightarrow>
      case db_Updates (oldParentDir, oldItemName)
             [Set_parent_path newParentDir, Set_name newItemName] s of
        (None, s1) \<Rightarrow> (None, s1)
      | (Some e, s1) \<Rightarrow>
          if strings_Contains (Error e) ErrorOfUniqueKeyExist
          then db_Transaction
                 (\<lambda>tx.
                    case db_Delete (newParentDir, newItemName) tx of
                      (Some e_rd, tx1) \<Rightarrow> (Some e_rd, tx1)
                    | (rd, tx1) \<Rightarrow>
                        (case db_Updates (oldParentDir, oldItemName)
                                [Set_parent_path newParentDir, Set_name newItemName] tx1 of
                           (Some e_ru, tx2) \<Rightarrow> (rd, tx2)
                         | (None, tx2) \<Rightarrow> (None, tx2)))
                 s1
          else (Some e, s1))"

definition GetItem :: "string \<Rightarrow> store \<Rightarrow> (error + Item) \<times> store" where
  "GetItem name s =
     (case filepath_Split name of (parentDir, itemName) \<Rightarrow> db_First (parentDir, itemName) s)"



section \<open>Notions the statements use\<close>

text \<open>
  \<open>rekey old new\<close> moves the row of key \<open>old\<close> to the key \<open>new\<close> and leaves every other
  row alone.  \<open>same_but_key t t'\<close>: every row of \<open>t'\<close> is a row of \<open>t\<close>, up to the two key
  columns.
\<close>

definition rekey :: "string \<times> string \<Rightarrow> string \<times> string \<Rightarrow> Item \<Rightarrow> Item" where
  "rekey old new r = (if key r = old then r\<lparr>ParentPath := fst new, Name := snd new\<rparr> else r)"

definition same_but_key :: "Item list \<Rightarrow> Item list \<Rightarrow> bool" where
  "same_but_key t t' =
     list_all (\<lambda>r'. list_ex (\<lambda>r. r' = r\<lparr>ParentPath := ParentPath r', Name := Name r'\<rparr>) t) t'"

section \<open>Example rows\<close>

text \<open>
  Rows and an entry for the concrete runs below: two objects and a directory under
  \<^verbatim>\<open>/a/\<close>, and \<open>dir_d\<close>, an entry for the key of \<open>row_d\<close> as a caller would pass it to
  \<open>UpsertItem\<close>.
\<close>

definition row_b :: Item where
  "row_b = \<lparr>ParentPath = ''/a/'', Name = ''b.txt'', Type = EntryObject, Size = 10, State = 0,
     Sha1 = ''h1'', CreatedAt = 100, UpdatedAt = 100, Info = ''blob-b''\<rparr>"

definition row_c :: Item where
  "row_c = \<lparr>ParentPath = ''/a/'', Name = ''c.txt'', Type = EntryObject, Size = 20, State = 0,
     Sha1 = ''h2'', CreatedAt = 200, UpdatedAt = 200, Info = ''blob-c''\<rparr>"

definition row_d :: Item where
  "row_d = \<lparr>ParentPath = ''/a/'', Name = ''d'', Type = EntryDirectory, Size = 512, State = 0,
     Sha1 = [], CreatedAt = 50, UpdatedAt = 60, Info = []\<rparr>"

definition dir_d :: Item where
  "dir_d = \<lparr>ParentPath = ''/a/'', Name = ''d'', Type = EntryDirectory, Size = 4096, State = 0,
     Sha1 = [], CreatedAt = 0, UpdatedAt = 0, Info = []\<rparr>"

section \<open>Properties of IsPartialFile\<close>

declare run.simps [simp del]

lemma HasPrefix_iff: "HasPrefix s l \<longleftrightarrow> (\<exists>t. s = l @ t)"
  by (induction s l rule: HasPrefix.induct) auto

lemma set_iter_any:
  "set (iter n (run AnyCharNotNL) (i, s)) =
     {(i + k, drop k s) | k. k \<le> n \<and> k \<le> length s \<and> newline \<notin> set (take k s)}"
proof (induction n arbitrary: i s)
  case 0
  then show ?case by auto
next
  case (Suc n)
  show ?case
  proof (cases s)
    case Nil
    then show ?thesis by (auto simp: run.simps)
  next
    case (Cons c cs)
    show ?thesis
    proof (cases "c = newline")
      case True
      have "\<And>k. k \<le> Suc n \<and> k \<le> length s \<and> newline \<notin> set (take k s) \<longleftrightarrow> k = 0"
        using Cons True by (case_tac k) auto
      then show ?thesis using Cons True by (auto simp: run.simps)
    next
      case False
      have "{(i + k, drop k s) | k. k \<le> Suc n \<and> k \<le> length s \<and> newline \<notin> set (take k s)}
          = insert (i, s) {(Suc i + k, drop k cs) | k. k \<le> n \<and> k \<le> length cs \<and> newline \<notin> set (take k cs)}"
        (is "?L = ?R")
      proof (rule set_eqI, rule iffI)
        fix x assume "x \<in> ?L"
        then obtain k where k: "x = (i + k, drop k s)" "k \<le> Suc n" "k \<le> length s" "newline \<notin> set (take k s)"
          by blast
        show "x \<in> ?R"
        proof (cases k)
          case 0
          then show ?thesis using k by simp
        next
          case (Suc j)
          then have "x = (Suc i + j, drop j cs)" "j \<le> n" "j \<le> length cs" "newline \<notin> set (take j cs)"
            using k Cons by auto
          then show ?thesis by blast
        qed
      next
        fix x assume "x \<in> ?R"
        then consider "x = (i, s)" | j where "x = (Suc i + j, drop j cs)" "j \<le> n" "j \<le> length cs" "newline \<notin> set (take j cs)"
          by blast
        then show "x \<in> ?L"
        proof cases
          case 1
          then have "x = (i + 0, drop 0 s) \<and> 0 \<le> Suc n \<and> 0 \<le> length s \<and> newline \<notin> set (take 0 s)" by simp
          then show ?thesis by blast
        next
          case 2
          then have "x = (i + Suc j, drop (Suc j) s) \<and> Suc j \<le> Suc n \<and> Suc j \<le> length s \<and> newline \<notin> set (take (Suc j) s)"
            using Cons False by auto
          then show ?thesis by blast
        qed
      qed
      moreover have "run AnyCharNotNL (i, s) = [(Suc i, cs)]"
        using Cons False by (simp add: run.simps)
      ultimately show ?thesis using Suc.IH by simp
    qed
  qed
qed

lemma mem_run_star_any:
  "st \<in> set (run (Star AnyCharNotNL) (i, s)) \<longleftrightarrow>
     (\<exists>k. st = (i + k, drop k s) \<and> k \<le> length s \<and> newline \<notin> set (take k s))"
proof -
  have "run (Star AnyCharNotNL) (i, s) = iter (length s) (run AnyCharNotNL) (i, s)"
    by (simp add: run.simps)
  then show ?thesis
    by (auto simp: set_iter_any)
qed

lemma set_rep_class:
  "set (rep n (run (CharClass rs)) (i, s)) =
     (if n \<le> length s \<and> list_all (\<lambda>c. in_class c rs) (take n s) then {(i + n, drop n s)} else {})"
proof (induction n arbitrary: i s)
  case 0
  then show ?case by simp
next
  case (Suc n)
  show ?case
  proof (cases s)
    case Nil
    then show ?thesis by (simp add: run.simps)
  next
    case (Cons c cs)
    then show ?thesis using Suc.IH by (simp add: run.simps)
  qed
qed

lemma in_class_hex: "in_class c hexclass \<longleftrightarrow> lower_hex c"
proof -
  have e: "\<And>d. ((of_char c :: nat) = of_char d) = (c = d)"
    by (rule of_char_eq_iff)
  have "in_class c hexclass \<longleftrightarrow>
      ((97::nat) \<le> of_char c \<and> (of_char c :: nat) \<le> 102 \<or>
       (48::nat) \<le> of_char c \<and> (of_char c :: nat) \<le> 57)"
    by (simp add: hexclass_def)
  also have "\<dots> \<longleftrightarrow>
      (of_char c :: nat) \<in> {97, 98, 99, 100, 101, 102, 48, 49, 50, 51, 52, 53, 54, 55, 56, 57}"
    unfolding insert_iff empty_iff by presburger
  also have "\<dots> \<longleftrightarrow> c \<in> set ''abcdef0123456789''"
    using e [of "CHR ''a''"] e [of "CHR ''b''"] e [of "CHR ''c''"] e [of "CHR ''d''"]
      e [of "CHR ''e''"] e [of "CHR ''f''"] e [of "CHR ''0''"] e [of "CHR ''1''"]
      e [of "CHR ''2''"] e [of "CHR ''3''"] e [of "CHR ''4''"] e [of "CHR ''5''"]
      e [of "CHR ''6''"] e [of "CHR ''7''"] e [of "CHR ''8''"] e [of "CHR ''9''"]
    by simp
  finally show ?thesis
    unfolding lower_hex_def .
qed

lemma mem_run_hex8:
  "st \<in> set (run (Repeat 8 (CharClass hexclass)) (i, s)) \<longleftrightarrow>
     (\<exists>hex t. s = hex @ t \<and> length hex = 8 \<and> list_all lower_hex hex \<and> st = (i + 8, t))"
proof -
  have c: "(\<lambda>c. in_class c hexclass) = lower_hex"
    unfolding in_class_hex ..
  have "st \<in> set (run (Repeat 8 (CharClass hexclass)) (i, s)) \<longleftrightarrow>
      8 \<le> length s \<and> list_all lower_hex (take 8 s) \<and> st = (i + 8, drop 8 s)"
    by (auto simp add: run.simps(7) set_rep_class c)
  also have "\<dots> \<longleftrightarrow> (\<exists>hex t. s = hex @ t \<and> length hex = 8 \<and> list_all lower_hex hex \<and> st = (i + 8, t))"
  proof
    assume a: "8 \<le> length s \<and> list_all lower_hex (take 8 s) \<and> st = (i + 8, drop 8 s)"
    then have "s = take 8 s @ drop 8 s \<and> length (take 8 s) = 8 \<and> list_all lower_hex (take 8 s) \<and>
        st = (i + 8, drop 8 s)"
      by simp
    then show "\<exists>hex t. s = hex @ t \<and> length hex = 8 \<and> list_all lower_hex hex \<and> st = (i + 8, t)"
      by blast
  next
    assume "\<exists>hex t. s = hex @ t \<and> length hex = 8 \<and> list_all lower_hex hex \<and> st = (i + 8, t)"
    then show "8 \<le> length s \<and> list_all lower_hex (take 8 s) \<and> st = (i + 8, drop 8 s)"
      by auto
  qed
  finally show ?thesis .
qed

lemma mem_run_Literal:
  "st \<in> set (run (Literal l) (i, s)) \<longleftrightarrow> (\<exists>t. s = l @ t \<and> st = (i + length l, t))"
  by (auto simp: run.simps HasPrefix_iff)

lemma mem_run_EndText: "st \<in> set (run EndText (i, s)) \<longleftrightarrow> s = [] \<and> st = (i, [])"
  by (auto simp: run.simps)

lemma mem_run_BeginText: "st \<in> set (run BeginText (i, s)) \<longleftrightarrow> i = 0 \<and> st = (0, s)"
  by (auto simp: run.simps)

lemma mem_run_Concat:
  "st \<in> set (run (Concat r1 r2) (i, s)) \<longleftrightarrow>
     (\<exists>j t. (j, t) \<in> set (run r1 (i, s)) \<and> st \<in> set (run r2 (j, t)))"
  by (auto simp: run.simps)

lemma patten_unfold:
  "patten = Concat BeginText (Concat (Star AnyCharNotNL) (Concat (Literal ''.'')
          (Concat (Repeat 8 (CharClass hexclass)) (Concat (Literal ''.partial'') EndText))))"
  by (simp add: patten_def hexclass_def)

lemma mem_run_patten:
  "st \<in> set (run patten (i, name)) \<longleftrightarrow>
     i = 0 \<and> (\<exists>pre hex. name = pre @ ''.'' @ hex @ ''.partial'' \<and> length hex = 8 \<and>
        list_all lower_hex hex \<and> newline \<notin> set pre \<and> st = (length name, []))"
  (is "?L = ?R")
proof
  assume l: ?L
  let ?r4 = "Concat (Literal ''.partial'') EndText"
  let ?r3 = "Concat (Repeat 8 (CharClass hexclass)) ?r4"
  let ?r2 = "Concat (Literal ''.'') ?r3"
  let ?r1 = "Concat (Star AnyCharNotNL) ?r2"
  from l obtain j1 t1 where a1: "(j1, t1) \<in> set (run BeginText (i, name))"
      and b1: "st \<in> set (run ?r1 (j1, t1))"
    unfolding patten_unfold mem_run_Concat [of st BeginText] by blast
  from a1 have i0: "i = 0" "j1 = 0" "t1 = name"
    unfolding mem_run_BeginText by auto
  from b1 obtain j2 t2 where a2: "(j2, t2) \<in> set (run (Star AnyCharNotNL) (0, name))"
      and b2: "st \<in> set (run ?r2 (j2, t2))"
    unfolding i0 mem_run_Concat [of st "Star AnyCharNotNL"] by blast
  from a2 obtain k where k0: "j2 = k" "t2 = drop k name" "k \<le> length name"
      "newline \<notin> set (take k name)"
    unfolding mem_run_star_any by auto
  from b2 obtain j3 t3 where a3: "(j3, t3) \<in> set (run (Literal ''.'') (k, drop k name))"
      and b3: "st \<in> set (run ?r3 (j3, t3))"
    unfolding k0 mem_run_Concat [of st "Literal ''.''"] by blast
  from a3 have k3: "drop k name = ''.'' @ t3" "j3 = k + 1"
    unfolding mem_run_Literal by auto
  from b3 obtain j4 t4 where a4: "(j4, t4) \<in> set (run (Repeat 8 (CharClass hexclass)) (j3, t3))"
      and b4: "st \<in> set (run ?r4 (j4, t4))"
    unfolding mem_run_Concat [of st "Repeat 8 (CharClass hexclass)"] by blast
  from a4 obtain hex where k4: "t3 = hex @ t4" "length hex = 8" "list_all lower_hex hex" "j4 = j3 + 8"
    unfolding mem_run_hex8 by auto
  from b4 obtain j5 t5 where a5: "(j5, t5) \<in> set (run (Literal ''.partial'') (j4, t4))"
      and b5: "st \<in> set (run EndText (j5, t5))"
    unfolding mem_run_Concat [of st "Literal ''.partial''"] by blast
  from a5 have k5: "t4 = ''.partial'' @ t5" "j5 = j4 + 8"
    unfolding mem_run_Literal by auto
  from b5 have k6: "t5 = []" "st = (j5, [])"
    unfolding mem_run_EndText by auto
  have "i = 0" "k \<le> length name" "newline \<notin> set (take k name)"
     "drop k name = ''.'' @ hex @ ''.partial''" "length hex = 8" "list_all lower_hex hex"
     "st = (k + 1 + 8 + 8, [])"
    using i0 k0 k3 k4 k5 k6 by simp_all
  note k = this
  have n: "name = take k name @ ''.'' @ hex @ ''.partial''"
    using k(4) by (metis append_take_drop_id)
  have "length name = length (take k name) + length (''.'' @ hex @ ''.partial'')"
    by (subst n) (simp only: length_append)
  then have "length name = k + 1 + 8 + 8"
    using k(2,5) by simp
  with k n have "i = 0 \<and> name = take k name @ ''.'' @ hex @ ''.partial'' \<and> length hex = 8 \<and>
        list_all lower_hex hex \<and> newline \<notin> set (take k name) \<and> st = (length name, [])"
    by simp
  then show ?R by blast
next
  assume ?R
  then obtain pre hex where p: "i = 0" "name = pre @ ''.'' @ hex @ ''.partial''" "length hex = 8"
      "list_all lower_hex hex" "newline \<notin> set pre" "st = (length name, [])"
    by blast
  have 1: "(0, name) \<in> set (run BeginText (i, name))"
    using p by (simp add: mem_run_BeginText)
  have 2: "(length pre, ''.'' @ hex @ ''.partial'') \<in> set (run (Star AnyCharNotNL) (0, name))"
    unfolding mem_run_star_any using p by (intro exI [of _ "length pre"]) simp
  have 3: "(length pre + 1, hex @ ''.partial'') \<in> set (run (Literal ''.'') (length pre, ''.'' @ hex @ ''.partial''))"
    unfolding mem_run_Literal by simp
  have 4: "(length pre + 1 + 8, ''.partial'') \<in> set (run (Repeat 8 (CharClass hexclass)) (length pre + 1, hex @ ''.partial''))"
    unfolding mem_run_hex8 using p by blast
  have 5: "(length pre + 1 + 8 + 8, []) \<in> set (run (Literal ''.partial'') (length pre + 1 + 8, ''.partial''))"
    unfolding mem_run_Literal by simp
  have 6: "(length pre + 1 + 8 + 8, []) \<in> set (run EndText (length pre + 1 + 8 + 8, []))"
    unfolding mem_run_EndText by simp
  have 7: "st = (length pre + 1 + 8 + 8, [])"
    using p by simp
  have 56: "st \<in> set (run (Concat (Literal ''.partial'') EndText) (length pre + 1 + 8, ''.partial''))"
    unfolding 7 mem_run_Concat using 5 6 by blast
  have 46: "st \<in> set (run (Concat (Repeat 8 (CharClass hexclass)) (Concat (Literal ''.partial'') EndText))
      (length pre + 1, hex @ ''.partial''))"
    unfolding mem_run_Concat [of st "Repeat 8 (CharClass hexclass)"] using 4 56 by blast
  have 36: "st \<in> set (run (Concat (Literal ''.'') (Concat (Repeat 8 (CharClass hexclass))
      (Concat (Literal ''.partial'') EndText))) (length pre, ''.'' @ hex @ ''.partial''))"
    unfolding mem_run_Concat [of st "Literal ''.''"] using 3 46 by blast
  have 26: "st \<in> set (run (Concat (Star AnyCharNotNL) (Concat (Literal ''.'')
      (Concat (Repeat 8 (CharClass hexclass)) (Concat (Literal ''.partial'') EndText)))) (0, name))"
    unfolding mem_run_Concat [of st "Star AnyCharNotNL"] using 2 36 by blast
  show ?L
    unfolding patten_unfold mem_run_Concat [of st BeginText] using 1 26 by blast
qed

text \<open>
  C10, amended.  \<open>IsPartialFile name\<close> holds exactly when \<open>name\<close> is a prefix that holds no
  newline, then a dot, then eight characters of \<^verbatim>\<open>[a-f0-9]\<close>, then \<^verbatim>\<open>.partial\<close> at
  the very end.  So a name with anything after the last \<^verbatim>\<open>.partial\<close> is no partial file.
\<close>

theorem IsPartialFile_iff:
  "IsPartialFile name \<longleftrightarrow>
     (\<exists>pre hex. name = pre @ ''.'' @ hex @ ''.partial'' \<and> length hex = 8 \<and>
        list_all lower_hex hex \<and> newline \<notin> set pre)"
  (is "_ = ?R")
proof -
  have ne: "\<And>i. run patten (i, drop i name) \<noteq> [] \<longleftrightarrow>
      (\<exists>st. st \<in> set (run patten (i, drop i name)))"
    by (metis all_not_in_conv set_empty)
  have "IsPartialFile name \<longleftrightarrow> (\<exists>i. i < Suc (length name) \<and> run patten (i, drop i name) \<noteq> [])"
    unfolding IsPartialFile_def MatchString_def list_ex_iff Bex_def
    by (simp only: set_upt atLeastLessThan_iff le0 simp_thms)
  also have "\<dots> \<longleftrightarrow> (\<exists>st. st \<in> set (run patten (0, name)))"
  proof
    assume "\<exists>i. i < Suc (length name) \<and> run patten (i, drop i name) \<noteq> []"
    then obtain i st where "st \<in> set (run patten (i, drop i name))"
      unfolding ne by blast
    moreover from this have "i = 0"
      unfolding mem_run_patten by blast
    ultimately have "st \<in> set (run patten (0, name))"
      by simp
    then show "\<exists>st. st \<in> set (run patten (0, name))" ..
  next
    assume "\<exists>st. st \<in> set (run patten (0, name))"
    then have "0 < Suc (length name) \<and> run patten (0, drop 0 name) \<noteq> []"
      unfolding ne by simp
    then show "\<exists>i. i < Suc (length name) \<and> run patten (i, drop i name) \<noteq> []"
      by blast
  qed
  also have "\<dots> \<longleftrightarrow> ?R"
    unfolding mem_run_patten by (simp only: simp_thms ex_simps) blast
  finally show ?thesis .
qed

text \<open>
  The pattern read as allowing any prefix would match a name whose prefix is a newline:
  the name has that shape (the prefix, a dot, the eight characters \<^verbatim>\<open>efe454dd\<close>, \<^verbatim>\<open>.partial\<close>),
  and \<open>IsPartialFile\<close> is false on it: \<open>.\<close> does not match a newline.
\<close>

theorem IsPartialFile_newline_counterexample:
  "\<not> IsPartialFile (CHR 0x0A # ''.efe454dd.partial'') \<and>
   CHR 0x0A # ''.efe454dd.partial'' = [CHR 0x0A] @ ''.'' @ ''efe454dd'' @ ''.partial'' \<and>
   length ''efe454dd'' = 8 \<and> list_all lower_hex ''efe454dd''"
  by code_simp

text \<open>
  The name of \<open>Test_IsPartialFile\<close>, in UTF-8: it ends in \<^verbatim>\<open>.partial1\<close>, and the
  function returns false.
\<close>

lemma Test_IsPartialFile:
  "\<not> IsPartialFile
     ([CHR 0xE6, CHR 0x96, CHR 0xB0, CHR 0xE5, CHR 0xBB, CHR 0xBA, CHR 0x20,
       CHR 0xE6, CHR 0x96, CHR 0x87, CHR 0xE6, CHR 0x9C, CHR 0xAC,
       CHR 0xE6, CHR 0x96, CHR 0x87, CHR 0xE6, CHR 0xA1, CHR 0xA3] @
      ''.txt.efe454dd.partial1'')"
  by code_simp

section \<open>Properties of the filters\<close>

text \<open>
  C9.  \<open>FilterParentPath path operator\<close> is the filter \<open>FilterName path operator\<close>: it adds
  one condition, which compares the column \<open>name\<close> with \<open>path\<close>, and no other; no
  condition on \<open>parent_path\<close> is added.
\<close>

theorem FilterParentPath_filters_name:
  "FilterParentPath path operator db = FilterName path operator db \<and>
   conditions (FilterParentPath path operator db) =
     conditions db @ [(''name '' @ operator @ '' ?'', path)]"
  by (simp add: FilterParentPath_def FilterName_def Where_def)

section \<open>Properties of filepath.Split\<close>

lemma last_sep_le: "last_sep p n \<le> n"
  by (induction n) auto

lemma last_sep_after: "last_sep p n \<le> i \<Longrightarrow> i < n \<Longrightarrow> p ! i \<noteq> CHR ''/''"
proof (induction n)
  case 0
  then show ?case by simp
next
  case (Suc n)
  then show ?case
    by (cases "p ! n = CHR ''/''") (auto simp: less_Suc_eq)
qed

lemma last_sep_at: "0 < last_sep p n \<Longrightarrow> p ! (last_sep p n - 1) = CHR ''/''"
  by (induction n) (auto split: if_splits)

lemma last_sep_append:
  "CHR ''/'' \<notin> set n \<Longrightarrow> d = [] \<or> last d = CHR ''/'' \<Longrightarrow>
     last_sep (d @ n) (length d + k) = length d" if "k \<le> length n"
  using that
proof (induction k)
  case 0
  show ?case
  proof (cases d rule: rev_cases)
    case Nil
    then show ?thesis by simp
  next
    case (snoc ds c)
    with 0 have "c = CHR ''/''" by simp
    with snoc show ?thesis by (simp add: nth_append)
  qed
next
  case (Suc k)
  then have "k < length n" by simp
  then have "n ! k \<in> set n" by (rule nth_mem)
  with Suc.prems have "n ! k \<noteq> CHR ''/''" by metis
  then have "(d @ n) ! (length d + k) \<noteq> CHR ''/''"
    by (simp add: nth_append)
  with Suc show ?case by simp
qed

lemma filepath_Split_append:
  assumes "CHR ''/'' \<notin> set n" and "d = [] \<or> last d = CHR ''/''"
  shows "filepath_Split (d @ n) = (d, n)"
proof -
  have "last_sep (d @ n) (length (d @ n)) = length d"
    using last_sep_append [OF order_refl assms] by simp
  then show ?thesis
    by (simp add: filepath_Split_def)
qed

lemma last_take: "0 < k \<Longrightarrow> k \<le> length xs \<Longrightarrow> last (take k xs) = xs ! (k - 1)"
proof -
  assume k: "0 < k" "k \<le> length xs"
  then have "take k xs \<noteq> []" by auto
  then have "last (take k xs) = take k xs ! (length (take k xs) - 1)"
    by (rule last_conv_nth)
  also have "\<dots> = take k xs ! (k - 1)" using k by simp
  also have "\<dots> = xs ! (k - 1)" using k by simp
  finally show ?thesis .
qed

lemma filepath_Split_parts:
  assumes "filepath_Split path = (d, n)"
  shows "path = d @ n" and "CHR ''/'' \<notin> set n" and "d = [] \<or> last d = CHR ''/''"
proof -
  let ?k = "last_sep path (length path)"
  have d: "d = take ?k path" and n: "n = drop ?k path"
    using assms by (simp_all add: filepath_Split_def)
  show "path = d @ n" by (simp add: d n)
  show "CHR ''/'' \<notin> set n"
  proof
    assume "CHR ''/'' \<in> set n"
    then obtain i where i: "i < length n" "n ! i = CHR ''/''"
      by (auto simp: in_set_conv_nth)
    then have "path ! (?k + i) = CHR ''/''" "?k + i < length path" "?k \<le> ?k + i"
      by (auto simp: n)
    with last_sep_after [of path "length path" "?k + i"] show False by simp
  qed
  show "d = [] \<or> last d = CHR ''/''"
  proof (cases "?k = 0")
    case True
    then show ?thesis by (simp add: d)
  next
    case False
    then have "path ! (?k - 1) = CHR ''/''"
      using last_sep_at [of path "length path"] by simp
    moreover have "?k \<le> length path" by (rule last_sep_le)
    ultimately have "last (take ?k path) = CHR ''/''"
      using False by (simp add: last_take)
    then show ?thesis by (simp add: d)
  qed
qed

section \<open>Properties of the statements\<close>

subsection \<open>Assignments\<close>

lemma fold_set_column_CreatedAt:
  "''created_at'' \<notin> column_of ` set as \<Longrightarrow> CreatedAt (fold set_column as r) = CreatedAt r"
proof (induction as arbitrary: r)
  case Nil
  then show ?case by simp
next
  case (Cons a as)
  then show ?case by (cases a) simp_all
qed

lemma fold_set_column_UpdatedAt:
  "''updated_at'' \<notin> column_of ` set as \<Longrightarrow> UpdatedAt (fold set_column as r) = UpdatedAt r"
proof (induction as arbitrary: r)
  case Nil
  then show ?case by simp
next
  case (Cons a as)
  then show ?case by (cases a) simp_all
qed

lemma key_simps [simp]:
  "key (r\<lparr>Type := t\<rparr>) = key r" "key (r\<lparr>Size := z\<rparr>) = key r" "key (r\<lparr>State := st\<rparr>) = key r"
  "key (r\<lparr>Sha1 := h\<rparr>) = key r" "key (r\<lparr>CreatedAt := c\<rparr>) = key r"
  "key (r\<lparr>UpdatedAt := u\<rparr>) = key r" "key (r\<lparr>Info := b\<rparr>) = key r"
  "key (r\<lparr>ParentPath := d, Name := n\<rparr>) = (d, n)"
  by (simp_all add: key_def)

subsection \<open>Statements\<close>

lemma exec_None:
  "exec stmt s = (None, s') \<Longrightarrow> stmt (rows s) = Inr (rows s') \<and> faults s' = tl (faults s)"
  by (auto simp: exec_def split: list.splits option.splits sum.splits)

lemma exec_Some:
  "exec stmt s = (Some e, s') \<Longrightarrow> rows s' = rows s \<and> faults s' = tl (faults s)"
  by (auto simp: exec_def split: list.splits option.splits sum.splits)

lemma exec_no_fault:
  "faults s = [] \<Longrightarrow>
     exec stmt s = (case stmt (rows s) of Inl e \<Rightarrow> (Some e, s) | Inr t \<Rightarrow> (None, s\<lparr>rows := t\<rparr>))"
  by (auto simp: exec_def split: sum.splits)

lemma db_Updates_None:
  "db_Updates k as s = (None, s') \<Longrightarrow>
     unknown_column as = None \<and>
     rows s' = map (\<lambda>r. if key r = k then fold set_column as r else r) (rows s) \<and>
     (as \<noteq> [] \<longrightarrow> unique_index (rows s'))"
proof (cases "as = []")
  case True
  moreover assume "db_Updates k as s = (None, s')"
  ultimately have "s' = s" by (simp add: db_Updates_def)
  moreover have "map (\<lambda>r. if key r = k then fold set_column [] r else r) (rows s) = rows s"
    by (rule map_idI) simp
  ultimately show ?thesis unfolding True by simp
next
  case False
  moreover assume "db_Updates k as s = (None, s')"
  ultimately have "sql_update k as (rows s) = Inr (rows s')"
    by (auto simp: db_Updates_def dest: exec_None)
  then show ?thesis
    by (auto simp: sql_update_def Let_def split: if_splits option.splits)
qed

lemma db_Updates_Some:
  "db_Updates k as s = (Some e, s') \<Longrightarrow> rows s' = rows s"
  by (auto simp: db_Updates_def dest!: exec_Some split: if_splits)

lemma db_Delete_None:
  "db_Delete k s = (None, s') \<Longrightarrow> rows s' = filter (\<lambda>r. key r \<noteq> k) (rows s)"
  by (auto simp: db_Delete_def sql_delete_def dest!: exec_None)

lemma db_Delete_Some:
  "db_Delete k s = (Some e, s') \<Longrightarrow> rows s' = rows s"
  by (auto simp: db_Delete_def dest!: exec_Some)

lemma db_Transaction_Some:
  "db_Transaction fc s = (Some e, s') \<Longrightarrow> rows s' = rows s"
  by (auto simp: db_Transaction_def split: list.splits option.splits prod.splits)

lemma db_Transaction_None:
  "db_Transaction fc s = (None, s') \<Longrightarrow>
     \<exists>tx. fc (s\<lparr>faults := tl (faults s)\<rparr>) = (None, tx) \<and> rows s' = rows tx"
  by (auto simp: db_Transaction_def split: list.splits option.splits prod.splits)

subsection \<open>UpsertItem\<close>

lemma fold_doUpdates:
  "fold set_column [Set_updated_at now, Set_sha1 f, Set_size z, Set_info b] =
     (\<lambda>r. r\<lparr>UpdatedAt := now, Sha1 := f, Size := z, Info := b\<rparr>)"
  by (rule ext) simp

lemma UpsertItem_None:
  assumes "UpsertItem json_Unmarshal now curTime item s = (None, s')"
  shows "\<exists>info. decoded json_Unmarshal item = Inr info \<and>
           rows s' =
             (if list_ex (\<lambda>r. key r = key item) (rows s)
              then map (\<lambda>r. if key r = key item
                             then r\<lparr>UpdatedAt := now, Sha1 := Fingerprint info,
                                   Size := Info.Size info, Info := Info item\<rparr>
                             else r) (rows s)
              else rows s @ [auto_time curTime item])"
proof (cases "decoded json_Unmarshal item")
  case (Inl m)
  with assms show ?thesis
    by (simp add: UpsertItem_def decoded_def split: if_splits)
next
  case (Inr info)
  have k: "key (auto_time curTime item) = key item"
    by (simp add: auto_time_def key_def)
  from Inr assms have "db_Create
      [Set_updated_at now, Set_sha1 (Fingerprint info), Set_size (Info.Size info), Set_info (Info item)]
      curTime item s = (None, s')"
    by (simp add: UpsertItem_def decoded_def split: if_splits)
  then have "sql_insert_on_conflict
      [Set_updated_at now, Set_sha1 (Fingerprint info), Set_size (Info.Size info), Set_info (Info item)]
      (auto_time curTime item) (rows s) = Inr (rows s')"
    by (auto simp: db_Create_def dest: exec_None)
  then show ?thesis
    unfolding sql_insert_on_conflict_def fold_doUpdates
    using Inr by (auto simp: k split: if_splits)
qed

lemma UpsertItem_no_fault:
  assumes "faults s = []" and "decoded json_Unmarshal item = Inr info"
  shows "\<exists>s'. UpsertItem json_Unmarshal now curTime item s = (None, s')"
  using assms
  by (auto simp: UpsertItem_def decoded_def db_Create_def exec_no_fault sql_insert_on_conflict_def
      split: if_splits)

subsection \<open>RenameItem\<close>

lemma same_but_key_iff:
  "same_but_key t t' \<longleftrightarrow>
     (\<forall>r' \<in> set t'. \<exists>r \<in> set t. r' = r\<lparr>ParentPath := ParentPath r', Name := Name r'\<rparr>)"
  by (simp add: same_but_key_def list_all_iff list_ex_iff)

lemma self_rekey: "r = r\<lparr>ParentPath := ParentPath r, Name := Name r\<rparr>"
  by simp

lemma same_but_key_refl: "same_but_key t t"
  unfolding same_but_key_iff using self_rekey by blast

lemma same_but_key_filter: "same_but_key t (filter P t)"
  unfolding same_but_key_iff
proof
  fix r' assume "r' \<in> set (filter P t)"
  then have "r' \<in> set t" by simp
  then show "\<exists>r \<in> set t. r' = r\<lparr>ParentPath := ParentPath r', Name := Name r'\<rparr>"
    using self_rekey [of r'] by (rule rev_bexI)
qed

lemma same_but_key_rekey: "same_but_key t (map (rekey old new) t)"
  unfolding same_but_key_iff
proof
  fix r' assume "r' \<in> set (map (rekey old new) t)"
  then obtain r where r: "r \<in> set t" "r' = rekey old new r" by auto
  then have "r' = r\<lparr>ParentPath := ParentPath r', Name := Name r'\<rparr>"
    by (simp add: rekey_def)
  with r(1) show "\<exists>r \<in> set t. r' = r\<lparr>ParentPath := ParentPath r', Name := Name r'\<rparr>" ..
qed

lemma same_but_key_trans:
  assumes "same_but_key t t'" and "same_but_key t' t''"
  shows "same_but_key t t''"
  unfolding same_but_key_iff
proof
  fix r'' assume "r'' \<in> set t''"
  with assms(2) obtain r' where r': "r' \<in> set t'"
      "r'' = r'\<lparr>ParentPath := ParentPath r'', Name := Name r''\<rparr>"
    unfolding same_but_key_iff by blast
  with assms(1) obtain r where r: "r \<in> set t"
      "r' = r\<lparr>ParentPath := ParentPath r', Name := Name r'\<rparr>"
    unfolding same_but_key_iff by blast
  have "r'' = r\<lparr>ParentPath := ParentPath r'', Name := Name r''\<rparr>"
    by (subst r'(2), subst r(2)) simp
  with r(1) show "\<exists>r \<in> set t. r'' = r\<lparr>ParentPath := ParentPath r'', Name := Name r''\<rparr>" ..
qed

lemma fold_rename:
  "fold set_column [Set_parent_path d, Set_name n] = (\<lambda>r. r\<lparr>ParentPath := d, Name := n\<rparr>)"
  by (rule ext) simp

lemma rename_update_None:
  assumes "db_Updates old [Set_parent_path (fst new), Set_name (snd new)] s = (None, s')"
  shows "rows s' = map (rekey old new) (rows s)" and "unique_index (rows s')"
proof -
  note a = db_Updates_None [OF assms]
  from a have "rows s' = map (\<lambda>r. if key r = old
      then fold set_column [Set_parent_path (fst new), Set_name (snd new)] r else r) (rows s)"
    by (rule conjunct2 [THEN conjunct1])
  then show "rows s' = map (rekey old new) (rows s)"
    unfolding fold_rename rekey_def [abs_def] .
  from a show "unique_index (rows s')" by blast
qed

lemma RenameItem_None:
  assumes "RenameItem oldName newName s = (None, s')"
  shows "same_but_key (rows s) (rows s')"
proof -
  obtain od on where o: "filepath_Split oldName = (od, on)" by (cases "filepath_Split oldName")
  obtain nd nn where n: "filepath_Split newName = (nd, nn)" by (cases "filepath_Split newName")
  let ?as = "[Set_parent_path nd, Set_name nn]"
  obtain res s1 where u: "db_Updates (od, on) ?as s = (res, s1)"
    by (cases "db_Updates (od, on) ?as s")
  show ?thesis
  proof (cases res)
    case None
    with assms o n u have "s' = s1" by (simp add: RenameItem_def)
    moreover have "rows s1 = map (rekey (od, on) (nd, nn)) (rows s)"
      using rename_update_None(1) [of "(od, on)" "(nd, nn)" s s1] u None by simp
    ultimately show ?thesis by (simp add: same_but_key_rekey)
  next
    case (Some e)
    then have r1: "rows s1 = rows s"
      using u db_Updates_Some by blast
    let ?fc = "\<lambda>tx. case db_Delete (nd, nn) tx of
                      (Some e_rd, tx1) \<Rightarrow> (Some e_rd, tx1)
                    | (rd, tx1) \<Rightarrow>
                        (case db_Updates (od, on) ?as tx1 of
                           (Some e_ru, tx2) \<Rightarrow> (rd, tx2)
                         | (None, tx2) \<Rightarrow> (None, tx2))"
    from assms o n u Some have t: "db_Transaction ?fc s1 = (None, s')"
      by (simp add: RenameItem_def split: if_splits)
    then obtain tx where tx: "?fc (s1\<lparr>faults := tl (faults s1)\<rparr>) = (None, tx)" "rows s' = rows tx"
      using db_Transaction_None by blast
    let ?tx0 = "s1\<lparr>faults := tl (faults s1)\<rparr>"
    obtain rd tx1 where d: "db_Delete (nd, nn) ?tx0 = (rd, tx1)"
      by (cases "db_Delete (nd, nn) ?tx0")
    from tx(1) d have rdN: "rd = None"
      by (cases rd) simp_all
    then have r2: "rows tx1 = filter (\<lambda>r. key r \<noteq> (nd, nn)) (rows s)"
      using d db_Delete_None [of "(nd, nn)" ?tx0 tx1] r1 by simp
    obtain ru tx2 where u2: "db_Updates (od, on) ?as tx1 = (ru, tx2)"
      by (cases "db_Updates (od, on) ?as tx1")
    from tx(1) d rdN u2 have e2: "tx = tx2"
      by (cases ru) simp_all
    have "same_but_key (rows tx1) (rows tx2)"
    proof (cases ru)
      case None
      then have "rows tx2 = map (rekey (od, on) (nd, nn)) (rows tx1)"
        using rename_update_None(1) [of "(od, on)" "(nd, nn)" tx1 tx2] u2 by simp
      then show ?thesis by (simp add: same_but_key_rekey)
    next
      case (Some e2)
      then have "rows tx2 = rows tx1" using u2 db_Updates_Some by blast
      then show ?thesis by (simp add: same_but_key_refl)
    qed
    moreover have "same_but_key (rows s) (rows tx1)"
      unfolding r2 by (rule same_but_key_filter)
    ultimately show ?thesis
      using tx(2) e2 same_but_key_trans by simp
  qed
qed

lemma key_rekey: "key (rekey old new r) = (if key r = old then new else key r)"
  by (simp add: rekey_def)

lemma rekey_same: "rekey old old r = r"
  by (auto simp: rekey_def key_def)

lemma unique_index_rekey:
  assumes "unique_index t"
  shows "unique_index (map (rekey old new) t) \<longleftrightarrow>
           \<not> (old \<in> key ` set t \<and> new \<in> key ` set t \<and> old \<noteq> new)"
proof -
  have m: "map key (map (rekey old new) t) = map (\<lambda>k. if k = old then new else k) (map key t)"
    by (simp add: key_rekey)
  have "inj_on (\<lambda>k. if k = old then new else k) (set (map key t)) \<longleftrightarrow>
      \<not> (old \<in> key ` set t \<and> new \<in> key ` set t \<and> old \<noteq> new)"
    by (auto simp: inj_on_def split: if_splits)
  then show ?thesis
    using assms unfolding unique_index_def m distinct_map by simp
qed

lemma sql_update_rename:
  "sql_update old [Set_parent_path (fst new), Set_name (snd new)] t =
     (if unique_index (map (rekey old new) t) then Inr (map (rekey old new) t)
      else Inl UniqueConstraintFailed)"
  unfolding sql_update_def fold_rename rekey_def [abs_def] by (simp add: Let_def)

lemma rekey_absent: "old \<notin> key ` set t \<Longrightarrow> map (rekey old new) t = t"
  by (rule map_idI) (auto simp: rekey_def)

lemma unique_index_filter: "unique_index t \<Longrightarrow> unique_index (filter P t)"
  by (simp add: unique_index_def distinct_map_filter)

lemma Contains_unique [simp]: "strings_Contains (Error UniqueConstraintFailed) ErrorOfUniqueKeyExist"
  by (simp add: ErrorOfUniqueKeyExist_def)

lemma RenameItem_no_fault:
  assumes f: "faults s = []" and u: "unique_index (rows s)"
    and o: "filepath_Split oldName = (od, on)" and n: "filepath_Split newName = (nd, nn)"
  shows "RenameItem oldName newName s =
           (None, s\<lparr>rows :=
              (if (od, on) \<notin> key ` set (rows s) \<or> (od, on) = (nd, nn) then rows s
               else map (rekey (od, on) (nd, nn)) (filter (\<lambda>r. key r \<noteq> (nd, nn)) (rows s)))\<rparr>)"
proof -
  let ?as = "[Set_parent_path nd, Set_name nn]"
  let ?fc = "\<lambda>tx. case db_Delete (nd, nn) tx of
                      (Some e_rd, tx1) \<Rightarrow> (Some e_rd, tx1)
                    | (rd, tx1) \<Rightarrow>
                        (case db_Updates (od, on) ?as tx1 of
                           (Some e_ru, tx2) \<Rightarrow> (rd, tx2)
                         | (None, tx2) \<Rightarrow> (None, tx2))"
  have du: "\<And>x. faults x = [] \<Longrightarrow> db_Updates (od, on) ?as x =
      (if unique_index (map (rekey (od, on) (nd, nn)) (rows x))
       then (None, x\<lparr>rows := map (rekey (od, on) (nd, nn)) (rows x)\<rparr>)
       else (Some UniqueConstraintFailed, x))"
    using sql_update_rename [of "(od, on)" "(nd, nn)"] by (simp add: db_Updates_def exec_no_fault)
  have R: "RenameItem oldName newName s =
      (case db_Updates (od, on) ?as s of
        (None, s1) \<Rightarrow> (None, s1)
      | (Some e, s1) \<Rightarrow>
          if strings_Contains (Error e) ErrorOfUniqueKeyExist
          then db_Transaction ?fc s1
          else (Some e, s1))"
    using o n by (simp add: RenameItem_def)
  show ?thesis
  proof (cases "(od, on) \<in> key ` set (rows s) \<and> (nd, nn) \<in> key ` set (rows s) \<and> (od, on) \<noteq> (nd, nn)")
    case False
    then have ui: "unique_index (map (rekey (od, on) (nd, nn)) (rows s))"
      using unique_index_rekey [OF u] by simp
    have "map (rekey (od, on) (nd, nn)) (rows s) =
        (if (od, on) \<notin> key ` set (rows s) \<or> (od, on) = (nd, nn) then rows s
         else map (rekey (od, on) (nd, nn)) (filter (\<lambda>r. key r \<noteq> (nd, nn)) (rows s)))"
    proof (cases "(od, on) \<notin> key ` set (rows s) \<or> (od, on) = (nd, nn)")
      case True
      then show ?thesis
        using rekey_absent [of "(od, on)" "rows s" "(nd, nn)"] rekey_same [of "(od, on)"]
        by (auto simp: map_idI)
    next
      case b: False
      with False have "(nd, nn) \<notin> key ` set (rows s)" by blast
      then have "filter (\<lambda>r. key r \<noteq> (nd, nn)) (rows s) = rows s"
        unfolding filter_id_conv by (metis imageI)
      with b show ?thesis by auto
    qed
    moreover have "db_Updates (od, on) ?as s =
        (None, s\<lparr>rows := map (rekey (od, on) (nd, nn)) (rows s)\<rparr>)"
      using du [OF f] ui by simp
    ultimately show ?thesis
      unfolding R by (simp only: prod.case option.case)
  next
    case True
    then have nu: "\<not> unique_index (map (rekey (od, on) (nd, nn)) (rows s))"
      using unique_index_rekey [OF u] by simp
    let ?t1 = "filter (\<lambda>r. key r \<noteq> (nd, nn)) (rows s)"
    have a: "db_Updates (od, on) ?as s = (Some UniqueConstraintFailed, s)"
      using du [OF f] nu by simp
    have d: "db_Delete (nd, nn) s = (None, s\<lparr>rows := ?t1\<rparr>)"
      using f by (simp add: db_Delete_def exec_no_fault sql_delete_def)
    have "(nd, nn) \<notin> key ` set ?t1" by force
    then have "unique_index (map (rekey (od, on) (nd, nn)) ?t1)"
      using unique_index_rekey [of ?t1 "(od, on)" "(nd, nn)"] unique_index_filter [OF u]
      by simp
    then have u2: "db_Updates (od, on) ?as (s\<lparr>rows := ?t1\<rparr>) =
        (None, s\<lparr>rows := map (rekey (od, on) (nd, nn)) ?t1\<rparr>)"
      using du [of "s\<lparr>rows := ?t1\<rparr>"] f by simp
    have fc: "?fc s = (None, s\<lparr>rows := map (rekey (od, on) (nd, nn)) ?t1\<rparr>)"
      by (simp only: d u2 prod.case option.case)
    have s0: "s\<lparr>faults := tl (faults s)\<rparr> = s" using f by simp
    have tr: "db_Transaction ?fc s = (None, s\<lparr>rows := map (rekey (od, on) (nd, nn)) ?t1\<rparr>)"
      unfolding db_Transaction_def s0 fc using f by simp
    have c: "(if (od, on) \<notin> key ` set (rows s) \<or> (od, on) = (nd, nn) then rows s
         else map (rekey (od, on) (nd, nn)) ?t1) = map (rekey (od, on) (nd, nn)) ?t1"
      using True by auto
    show ?thesis
      unfolding R a c by (simp only: prod.case option.case Contains_unique if_True tr)
  qed
qed

subsection \<open>GetAllItem\<close>








subsection \<open>The unique index\<close>

text \<open>
  Every operation that writes keeps the unique index, whatever it returns and whatever
  the store does: no two rows ever share (parent_path, name).
\<close>

lemma UpsertItem_Some:
  "UpsertItem json_Unmarshal now curTime item s = (Some e, s') \<Longrightarrow> rows s' = rows s"
  by (auto simp: UpsertItem_def db_Create_def dest: exec_Some split: sum.splits if_splits)

lemma UpsertItem_unique_index:
  assumes u: "unique_index (rows s)"
    and r: "UpsertItem json_Unmarshal now curTime item s = (res, s')"
  shows "unique_index (rows s')"
proof (cases res)
  case None
  with r have "UpsertItem json_Unmarshal now curTime item s = (None, s')" by simp
  from UpsertItem_None [OF this] obtain info :: Info where
    r1: "rows s' =
             (if list_ex (\<lambda>r. key r = key item) (rows s)
              then map (\<lambda>r. if key r = key item
                             then r\<lparr>UpdatedAt := now, Sha1 := Fingerprint info,
                                   Size := Info.Size info, Info := Info item\<rparr>
                             else r) (rows s)
              else rows s @ [auto_time curTime item])"
    by blast
  show ?thesis
  proof (cases "list_ex (\<lambda>r. key r = key item) (rows s)")
    case True
    have "map key (rows s') = map key (rows s)"
      unfolding r1 using True by (simp add: map_idI)
    with u show ?thesis by (simp add: unique_index_def)
  next
    case False
    then have "key item \<notin> set (map key (rows s))"
      unfolding list_ex_iff by auto
    moreover have "key (auto_time curTime item) = key item"
      by (simp add: auto_time_def key_def)
    ultimately show ?thesis
      unfolding r1 using False u by (simp add: unique_index_def)
  qed
next
  case (Some e)
  with r have "rows s' = rows s" by (simp add: UpsertItem_Some)
  with u show ?thesis by simp
qed

lemma DeleteItem_unique_index:
  assumes u: "unique_index (rows s)" and r: "DeleteItem name s = (res, s')"
  shows "unique_index (rows s')"
proof -
  obtain k where k: "filepath_Split name = k" by simp
  from r have d: "db_Delete k s = (res, s')"
    using k by (cases k) (simp add: DeleteItem_def)
  show ?thesis
  proof (cases res)
    case None
    with d have "rows s' = filter (\<lambda>r. key r \<noteq> k) (rows s)" by (simp add: db_Delete_None)
    with u show ?thesis by (simp add: unique_index_filter)
  next
    case (Some e)
    with d have "rows s' = rows s" by (simp add: db_Delete_Some)
    with u show ?thesis by simp
  qed
qed

lemma db_Updates_unique_index:
  assumes u: "unique_index (rows s)" and r: "db_Updates k as s = (res, s')"
  shows "unique_index (rows s')"
proof (cases res)
  case None
  show ?thesis
  proof (cases "as = []")
    case True
    with r have "s' = s" by (simp add: db_Updates_def)
    with u show ?thesis by simp
  next
    case False
    from r None have "db_Updates k as s = (None, s')" by simp
    from db_Updates_None [OF this] False show ?thesis by blast
  qed
next
  case (Some e)
  with r have "rows s' = rows s" by (simp add: db_Updates_Some)
  with u show ?thesis by simp
qed

lemma ModifyItem_unique_index:
  assumes "unique_index (rows s)" and "ModifyItem name infoMap s = (res, s')"
  shows "unique_index (rows s')"
proof -
  obtain k where k: "filepath_Split name = k" by simp
  from assms(2) have "db_Updates k infoMap s = (res, s')"
    using k by (cases k) (simp add: ModifyItem_def)
  with assms(1) show ?thesis by (rule db_Updates_unique_index)
qed

lemma db_Delete_unique_index:
  assumes u: "unique_index (rows s)" and d: "db_Delete k s = (res, s')"
  shows "unique_index (rows s')"
proof (cases res)
  case None
  with d have "rows s' = filter (\<lambda>r. key r \<noteq> k) (rows s)" by (simp add: db_Delete_None)
  with u show ?thesis by (simp add: unique_index_filter)
next
  case (Some e)
  with d have "rows s' = rows s" by (simp add: db_Delete_Some)
  with u show ?thesis by simp
qed

lemma db_Transaction_unique_index:
  assumes fc: "\<And>tx res tx'. unique_index (rows tx) \<Longrightarrow> fc tx = (res, tx') \<Longrightarrow> unique_index (rows tx')"
    and u: "unique_index (rows s)" and t: "db_Transaction fc s = (res, s')"
  shows "unique_index (rows s')"
proof (cases res)
  case None
  with t obtain tx where tx: "fc (s\<lparr>faults := tl (faults s)\<rparr>) = (None, tx)" "rows s' = rows tx"
    using db_Transaction_None by blast
  have "unique_index (rows (s\<lparr>faults := tl (faults s)\<rparr>))" using u by simp
  from fc [OF this tx(1)] tx(2) show ?thesis by simp
next
  case (Some e)
  with t have "rows s' = rows s" using db_Transaction_Some by blast
  with u show ?thesis by simp
qed

lemma RenameItem_unique_index:
  assumes u: "unique_index (rows s)" and r: "RenameItem oldName newName s = (res, s')"
  shows "unique_index (rows s')"
proof -
  obtain od on where o: "filepath_Split oldName = (od, on)" by (cases "filepath_Split oldName")
  obtain nd nn where n: "filepath_Split newName = (nd, nn)" by (cases "filepath_Split newName")
  let ?as = "[Set_parent_path nd, Set_name nn]"
  let ?fc = "\<lambda>tx. case db_Delete (nd, nn) tx of
                      (Some e_rd, tx1) \<Rightarrow> (Some e_rd, tx1)
                    | (rd, tx1) \<Rightarrow>
                        (case db_Updates (od, on) ?as tx1 of
                           (Some e_ru, tx2) \<Rightarrow> (rd, tx2)
                         | (None, tx2) \<Rightarrow> (None, tx2))"
  have fc: "unique_index (rows tx')" if "unique_index (rows tx)" and "?fc tx = (res', tx')"
    for tx res' tx'
  proof -
    obtain rd tx1 where d: "db_Delete (nd, nn) tx = (rd, tx1)"
      by (cases "db_Delete (nd, nn) tx")
    have u1: "unique_index (rows tx1)"
      using that(1) d by (rule db_Delete_unique_index)
    show ?thesis
    proof (cases rd)
      case (Some e)
      with that(2) d have "tx' = tx1" by simp
      with u1 show ?thesis by simp
    next
      case None
      obtain ru tx2 where u2: "db_Updates (od, on) ?as tx1 = (ru, tx2)"
        by (cases "db_Updates (od, on) ?as tx1")
      have "unique_index (rows tx2)"
        using u1 u2 by (rule db_Updates_unique_index)
      moreover from that(2) d None u2 have "tx' = tx2"
        by (cases ru) simp_all
      ultimately show ?thesis by simp
    qed
  qed
  obtain res1 s1 where u1: "db_Updates (od, on) ?as s = (res1, s1)"
    by (cases "db_Updates (od, on) ?as s")
  have us1: "unique_index (rows s1)"
    using u u1 by (rule db_Updates_unique_index)
  show ?thesis
  proof (cases res1)
    case None
    with r o n u1 have "s' = s1" by (simp add: RenameItem_def)
    with us1 show ?thesis by simp
  next
    case (Some e0)
    show ?thesis
    proof (cases "strings_Contains (Error e0) ErrorOfUniqueKeyExist")
      case True
      with r o n u1 Some have "db_Transaction ?fc s1 = (res, s')"
        by (simp add: RenameItem_def)
      with fc us1 show ?thesis by (rule db_Transaction_unique_index)
    next
      case False
      with r o n u1 Some have "s' = s1" by (simp add: RenameItem_def)
      with us1 show ?thesis by simp
    qed
  qed
qed

subsection \<open>Concrete runs\<close>

text \<open>
  The definitions a concrete run unfolds, and the runs the witnesses below start from.
\<close>

lemmas eval_defs =
  UpsertItem_def DeleteItem_def ModifyItem_def RenameItem_def GetItem_def
  db_Create_def db_Delete_def db_Updates_def db_First_def db_Transaction_def exec_def
  sql_insert_on_conflict_def sql_delete_def sql_update_def auto_time_def key_def
  unique_index_def filepath_Split_def EntryObject_def EntryDirectory_def zero_Info_def
  ErrorOfUniqueKeyExist_def decoded_def

lemma split_b: "filepath_Split ''/a/b.txt'' = (''/a/'', ''b.txt'')"
  by (simp add: filepath_Split_def)

lemma split_c: "filepath_Split ''/a/c.txt'' = (''/a/'', ''c.txt'')"
  by (simp add: filepath_Split_def)

lemma unique_bcd: "unique_index (rows \<lparr>rows = [row_b, row_c, row_d], faults = []\<rparr>)"
  by (simp add: unique_index_def key_def row_b_def row_c_def row_d_def)


lemma upsert_dir_d_alone:
  "UpsertItem (\<lambda>b. Inl ''invalid character'') 500 501 dir_d \<lparr>rows = [row_d], faults = []\<rparr> =
     (None, \<lparr>rows = [row_d\<lparr>Size := 0, UpdatedAt := 500\<rparr>], faults = []\<rparr>)"
  by (simp add: eval_defs row_d_def dir_d_def)

lemma upsert_d:
  "UpsertItem (\<lambda>b. Inl ''invalid character'') 500 501 dir_d \<lparr>rows = [row_b, row_c, row_d], faults = []\<rparr> =
     (None, \<lparr>rows = [row_b, row_c, row_d\<lparr>Size := 0, UpdatedAt := 500\<rparr>], faults = []\<rparr>)"
  by (simp add: eval_defs row_b_def row_c_def row_d_def dir_d_def)

lemma rename_b_c:
  "RenameItem ''/a/b.txt'' ''/a/c.txt'' \<lparr>rows = [row_b, row_c, row_d], faults = []\<rparr> =
     (None, \<lparr>rows = [row_b\<lparr>Name := ''c.txt''\<rparr>, row_d], faults = []\<rparr>)"
  by (simp add: eval_defs row_b_def row_c_def row_d_def)


lemma modify_b:
  "ModifyItem ''/a/b.txt'' [Set_state 3] \<lparr>rows = [row_b, row_c, row_d], faults = []\<rparr> =
     (None, \<lparr>rows = [row_b\<lparr>State := 3\<rparr>, row_c, row_d], faults = []\<rparr>)"
  by (simp add: eval_defs row_b_def row_c_def row_d_def)

lemma delete_b:
  "DeleteItem ''/a/b.txt'' \<lparr>rows = [row_b, row_c, row_d], faults = []\<rparr> =
     (None, \<lparr>rows = [row_c, row_d], faults = []\<rparr>)"
  by (simp add: eval_defs row_b_def row_c_def row_d_def)

lemma get_b:
  "GetItem ''/a/b.txt'' \<lparr>rows = [row_b, row_c, row_d], faults = []\<rparr> =
     (Inr row_b, \<lparr>rows = [row_b, row_c, row_d], faults = []\<rparr>)"
  by (simp add: eval_defs row_b_def row_c_def row_d_def)

lemma get_b_absent:
  "GetItem ''/a/b.txt'' \<lparr>rows = [row_c], faults = []\<rparr> =
     (Inl ErrRecordNotFound, \<lparr>rows = [row_c], faults = []\<rparr>)"
  by (simp add: eval_defs row_c_def)

section \<open>UpsertItem\<close>

lemma UpsertItem_conflict_rows:
  assumes "UpsertItem json_Unmarshal now curTime item s = (None, s')"
    and "list_ex (\<lambda>r. key r = key item) (rows s)"
  obtains info where "decoded json_Unmarshal item = Inr info"
    and "rows s' =
             map (\<lambda>r. if key r = key item
                      then r\<lparr>UpdatedAt := now, Sha1 := Fingerprint info,
                            Size := Info.Size info, Info := Info item\<rparr>
                      else r) (rows s)"
proof -
  from UpsertItem_None [OF assms(1)] obtain info where
    "decoded json_Unmarshal item = Inr info \<and>
           rows s' =
             (if list_ex (\<lambda>r. key r = key item) (rows s)
              then map (\<lambda>r. if key r = key item
                             then r\<lparr>UpdatedAt := now, Sha1 := Fingerprint info,
                                   Size := Info.Size info, Info := Info item\<rparr>
                             else r) (rows s)
              else rows s @ [auto_time curTime item])" ..
  with assms(2) that show thesis by (simp only: if_True)
qed

lemma UpsertItem_faults:
  "UpsertItem json_Unmarshal now curTime item s = (None, s') \<Longrightarrow> faults s' = tl (faults s)"
  by (auto simp: UpsertItem_def db_Create_def dest: exec_None split: sum.splits if_splits)

lemma GetItem_no_fault:
  assumes "faults s = []" and "filepath_Split name = k"
  shows "GetItem name s =
     (case find (\<lambda>r. key r = k) (rows s) of
        None \<Rightarrow> (Inl ErrRecordNotFound, s) | Some r \<Rightarrow> (Inr r, s))"
  using assms by (cases k) (auto simp: GetItem_def db_First_def split: option.splits)

lemma find_updated:
  assumes "\<And>r. key (f r) = key r" and "list_ex (\<lambda>r. key r = k) t"
  shows "\<exists>r. key r = k \<and> find (\<lambda>r. key r = k) (map (\<lambda>r. if key r = k then f r else r) t) = Some (f r)"
  using assms(2)
proof (induction t)
  case Nil
  then show ?case by simp
next
  case (Cons a t)
  show ?case
  proof (cases "key a = k")
    case True
    then have "find (\<lambda>r. key r = k) (map (\<lambda>r. if key r = k then f r else r) (a # t)) = Some (f a)"
      using assms(1) [of a] by simp
    with True show ?thesis by blast
  next
    case False
    with Cons show ?thesis by simp
  qed
qed

lemma find_appended:
  "\<not> list_ex P t \<Longrightarrow> P x \<Longrightarrow> find P (t @ [x]) = Some x"
  by (induction t) auto

text \<open>
  C2.  For an entry of type object, \<open>UpsertItem\<close> decodes the info blob before it sends
  anything to the store: when the decoder fails, \<open>UpsertItem\<close> returns the decoder's error
  and the store is the one it was given, every row and the script of faults included, so
  no statement was sent.
\<close>

theorem UpsertItem_decode_failure:
  assumes "Type item = EntryObject" and "json_Unmarshal (Info item) = Inl m"
  shows "UpsertItem json_Unmarshal now curTime item s = (Some (UnmarshalError m), s)"
proof -
  from assms have "decoded json_Unmarshal item = Inl m"
    by (simp add: decoded_def)
  then show ?thesis
    by (simp add: UpsertItem_def)
qed

text \<open>
  The statement above at an object entry whose blob the decoder rejects.
\<close>

theorem UpsertItem_decode_failure_witness:
  "Type row_b = EntryObject \<and>
   (\<lambda>b. Inl ''unexpected end of JSON input'') (Info row_b) = (Inl ''unexpected end of JSON input'' :: string + Info) \<and>
   UpsertItem (\<lambda>b. Inl ''unexpected end of JSON input'') 500 500 row_b \<lparr>rows = [row_c], faults = []\<rparr> =
     (Some (UnmarshalError ''unexpected end of JSON input''), \<lparr>rows = [row_c], faults = []\<rparr>)"
proof -
  have t: "Type row_b = EntryObject" by (simp add: row_b_def)
  have d: "(\<lambda>b. Inl ''unexpected end of JSON input'') (Info row_b) = (Inl ''unexpected end of JSON input'' :: string + Info)"
    by simp
  from UpsertItem_decode_failure [OF t d, of 500 500 "\<lparr>rows = [row_c], faults = []\<rparr>"] t
  show ?thesis by simp
qed

text \<open>
  C3, amended.  When a row has the entry's key already, a successful \<open>UpsertItem\<close> changes
  that row and no other, and of that row the four columns \<open>updated_at\<close>, \<open>sha1\<close>, \<open>size\<close>
  and \<open>info\<close> and no other: \<open>updated_at\<close> becomes the time \<open>now\<close> read by the call,
  \<open>sha1\<close> and \<open>size\<close> become the \<open>Fingerprint\<close> and \<open>Size\<close> of the decoded \<open>Info\<close> (of
  the zero \<open>Info\<close> when the entry is no object), \<open>info\<close> becomes the entry's blob.
  \<open>created_at\<close>, \<open>parent_path\<close>, \<open>name\<close>, \<open>type\<close> and \<open>state\<close> keep their values.
\<close>

theorem UpsertItem_conflict_frame:
  assumes "UpsertItem json_Unmarshal now curTime item s = (None, s')"
    and "list_ex (\<lambda>r. key r = key item) (rows s)"
  shows "\<exists>info. decoded json_Unmarshal item = Inr info \<and>
           rows s' =
             map (\<lambda>r. if key r = key item
                      then r\<lparr>UpdatedAt := now, Sha1 := Fingerprint info,
                            Size := Info.Size info, Info := Info item\<rparr>
                      else r) (rows s)"
proof -
  from assms obtain info where
    "decoded json_Unmarshal item = Inr info" and
    "rows s' = map (\<lambda>r. if key r = key item
                             then r\<lparr>UpdatedAt := now, Sha1 := Fingerprint info,
                                   Size := Info.Size info, Info := Info item\<rparr>
                             else r) (rows s)"
    by (rule UpsertItem_conflict_rows)
  then show ?thesis by blast
qed

text \<open>
  The statement above at the directory entry \<open>dir_d\<close> and a table that holds \<open>row_d\<close>.
\<close>

theorem UpsertItem_conflict_frame_witness:
  "UpsertItem (\<lambda>b. Inl ''invalid character'') 500 501 dir_d \<lparr>rows = [row_d], faults = []\<rparr> =
     (None, \<lparr>rows = [row_d\<lparr>Size := 0, UpdatedAt := 500\<rparr>], faults = []\<rparr>) \<and>
   list_ex (\<lambda>r. key r = key dir_d) (rows \<lparr>rows = [row_d], faults = []\<rparr>) \<and>
   (\<exists>info. decoded (\<lambda>b. Inl ''invalid character'') dir_d = Inr info \<and>
      rows \<lparr>rows = [row_d\<lparr>Size := 0, UpdatedAt := 500\<rparr>], faults = []\<rparr> =
        map (\<lambda>r. if key r = key dir_d
                 then r\<lparr>UpdatedAt := 500, Sha1 := Fingerprint info,
                       Size := Info.Size info, Info := Info dir_d\<rparr>
                 else r) (rows \<lparr>rows = [row_d], faults = []\<rparr>))"
proof -
  have e: "list_ex (\<lambda>r. key r = key dir_d) (rows \<lparr>rows = [row_d], faults = []\<rparr>)"
    by (simp add: key_def row_d_def dir_d_def)
  from UpsertItem_conflict_frame [OF upsert_dir_d_alone e] upsert_dir_d_alone e
  show ?thesis by blast
qed

text \<open>
  The spec has the four columns updated to the incoming values.  A directory entry
  comes in with size 4096 (and no info to decode); the row of its key ends with size 0,
  which is not the incoming size, and with the time of the call as \<open>updated_at\<close>.
\<close>

theorem UpsertItem_incoming_counterexample:
  "rows (snd (UpsertItem (\<lambda>b. Inl ''invalid character'') 500 501
      \<lparr>ParentPath = ''/a/'', Name = ''d'', Type = EntryDirectory, Size = 4096, State = 0,
       Sha1 = [], CreatedAt = 0, UpdatedAt = 0, Info = []\<rparr>
      \<lparr>rows = [\<lparr>ParentPath = ''/a/'', Name = ''d'', Type = EntryDirectory, Size = 512, State = 0,
                Sha1 = [], CreatedAt = 50, UpdatedAt = 60, Info = []\<rparr>],
       faults = []\<rparr>)) =
     [\<lparr>ParentPath = ''/a/'', Name = ''d'', Type = EntryDirectory, Size = 0, State = 0,
       Sha1 = [], CreatedAt = 50, UpdatedAt = 500, Info = []\<rparr>] \<and>
   Size \<lparr>ParentPath = ''/a/'', Name = ''d'', Type = EntryDirectory, Size = 0, State = 0,
       Sha1 = [], CreatedAt = 50, UpdatedAt = 500, Info = []\<rparr> \<noteq>
   Size \<lparr>ParentPath = ''/a/'', Name = ''d'', Type = EntryDirectory, Size = 4096, State = 0,
       Sha1 = [], CreatedAt = 0, UpdatedAt = 0, Info = []\<rparr>"
  by (simp add: eval_defs)



text \<open>
  C5, amended.  Take an entry whose parent path is empty or ends in the separator and
  whose name holds no separator, with a blob that decodes when the entry is an object,
  and a store that does not fail.  Then \<open>UpsertItem\<close> succeeds, and \<open>GetItem\<close> on the parent
  path followed by the name returns a row whose info is the entry's blob.  Its size and
  sha1 are the entry's \<open>Size\<close> and \<open>Sha1\<close> when no row had the key before, and the \<open>Size\<close>
  and \<open>Fingerprint\<close> of the decoded \<open>Info\<close> when one had.
\<close>

theorem Upsert_then_Get:
  assumes f: "faults s = []"
    and d: "decoded json_Unmarshal item = Inr info"
    and n: "CHR ''/'' \<notin> set (Name item)"
    and p: "ParentPath item = [] \<or> last (ParentPath item) = CHR ''/''"
  shows "\<exists>s1 s2 row.
           UpsertItem json_Unmarshal now curTime item s = (None, s1) \<and>
           GetItem (ParentPath item @ Name item) s1 = (Inr row, s2) \<and>
           Info row = Info item \<and>
           Size row = (if list_ex (\<lambda>r. key r = key item) (rows s) then Info.Size info else Size item) \<and>
           Sha1 row = (if list_ex (\<lambda>r. key r = key item) (rows s) then Fingerprint info else Sha1 item)"
proof -
  from UpsertItem_no_fault [OF f d] obtain s1 where
    u: "UpsertItem json_Unmarshal now curTime item s = (None, s1)" by blast
  have f1: "faults s1 = []" using UpsertItem_faults [OF u] f by simp
  have sp: "filepath_Split (ParentPath item @ Name item) = key item"
    using filepath_Split_append [OF n p] by (simp add: key_def)
  note g = GetItem_no_fault [OF f1 sp]
  let ?u = "\<lambda>r. r\<lparr>UpdatedAt := now, Sha1 := Fingerprint info, Size := Info.Size info, Info := Info item\<rparr>"
  from UpsertItem_None [OF u] d have r1: "rows s1 =
             (if list_ex (\<lambda>r. key r = key item) (rows s)
              then map (\<lambda>r. if key r = key item then ?u r else r) (rows s)
              else rows s @ [auto_time curTime item])"
    by simp
  show ?thesis
  proof (cases "list_ex (\<lambda>r. key r = key item) (rows s)")
    case True
    have "\<And>r. key (?u r) = key r" by simp
    from find_updated [of ?u, OF this True] obtain r where
      "find (\<lambda>r. key r = key item) (rows s1) = Some (?u r)"
      using r1 True by auto
    then have "GetItem (ParentPath item @ Name item) s1 = (Inr (?u r), s1)"
      unfolding g by simp
    with u True show ?thesis by auto
  next
    case False
    have "key (auto_time curTime item) = key item"
      by (simp add: auto_time_def key_def)
    then have "find (\<lambda>r. key r = key item) (rows s1) = Some (auto_time curTime item)"
      using r1 False find_appended [of "\<lambda>r. key r = key item" "rows s"] by simp
    then have "GetItem (ParentPath item @ Name item) s1 = (Inr (auto_time curTime item), s1)"
      unfolding g by simp
    with u False show ?thesis by (auto simp: auto_time_def)
  qed
qed

text \<open>
  The statement above at the directory entry \<open>dir_d\<close> and a table without its key.
\<close>

theorem Upsert_then_Get_witness:
  "faults \<lparr>rows = [row_b], faults = []\<rparr> = [] \<and>
   decoded (\<lambda>b. Inl ''invalid character'') dir_d = Inr zero_Info \<and>
   CHR ''/'' \<notin> set (Name dir_d) \<and>
   (ParentPath dir_d = [] \<or> last (ParentPath dir_d) = CHR ''/'') \<and>
   (\<exists>s1 s2 row.
      UpsertItem (\<lambda>b. Inl ''invalid character'') 500 501 dir_d \<lparr>rows = [row_b], faults = []\<rparr> = (None, s1) \<and>
      GetItem (ParentPath dir_d @ Name dir_d) s1 = (Inr row, s2) \<and>
      Info row = Info dir_d \<and>
      Size row = (if list_ex (\<lambda>r. key r = key dir_d) (rows \<lparr>rows = [row_b], faults = []\<rparr>)
                  then Info.Size zero_Info else Size dir_d) \<and>
      Sha1 row = (if list_ex (\<lambda>r. key r = key dir_d) (rows \<lparr>rows = [row_b], faults = []\<rparr>)
                  then Fingerprint zero_Info else Sha1 dir_d))"
proof -
  have f: "faults \<lparr>rows = [row_b], faults = []\<rparr> = []" by simp
  have d: "decoded (\<lambda>b. Inl ''invalid character'') dir_d = Inr zero_Info"
    by (simp add: decoded_def dir_d_def EntryObject_def EntryDirectory_def)
  have n: "CHR ''/'' \<notin> set (Name dir_d)" by (simp add: dir_d_def)
  have p: "ParentPath dir_d = [] \<or> last (ParentPath dir_d) = CHR ''/''" by (simp add: dir_d_def)
  from Upsert_then_Get [OF f d n p, of 500 501] f d n p
  show ?thesis by blast
qed

text \<open>
  The spec has \<open>GetItem\<close> return the size the last \<open>UpsertItem\<close> of the key carried.
  The same directory entry, of size 4096, is upserted twice into an empty table: after
  the first call \<open>GetItem\<close> returns size 4096, after the second it returns size 0.
\<close>

theorem Upsert_then_Get_counterexample:
  "fst (GetItem ''/a/d''
     (snd (UpsertItem (\<lambda>b. Inl ''invalid character'') 500 501
        \<lparr>ParentPath = ''/a/'', Name = ''d'', Type = EntryDirectory, Size = 4096, State = 0,
         Sha1 = [], CreatedAt = 0, UpdatedAt = 0, Info = []\<rparr>
        \<lparr>rows = [], faults = []\<rparr>))) =
     Inr \<lparr>ParentPath = ''/a/'', Name = ''d'', Type = EntryDirectory, Size = 4096, State = 0,
          Sha1 = [], CreatedAt = 501, UpdatedAt = 501, Info = []\<rparr> \<and>
   fst (GetItem ''/a/d''
     (snd (UpsertItem (\<lambda>b. Inl ''invalid character'') 600 601
        \<lparr>ParentPath = ''/a/'', Name = ''d'', Type = EntryDirectory, Size = 4096, State = 0,
         Sha1 = [], CreatedAt = 0, UpdatedAt = 0, Info = []\<rparr>
        (snd (UpsertItem (\<lambda>b. Inl ''invalid character'') 500 501
           \<lparr>ParentPath = ''/a/'', Name = ''d'', Type = EntryDirectory, Size = 4096, State = 0,
            Sha1 = [], CreatedAt = 0, UpdatedAt = 0, Info = []\<rparr>
           \<lparr>rows = [], faults = []\<rparr>))))) =
     Inr \<lparr>ParentPath = ''/a/'', Name = ''d'', Type = EntryDirectory, Size = 0, State = 0,
          Sha1 = [], CreatedAt = 501, UpdatedAt = 600, Info = []\<rparr> \<and>
   Size \<lparr>ParentPath = ''/a/'', Name = ''d'', Type = EntryDirectory, Size = 0, State = 0,
          Sha1 = [], CreatedAt = 501, UpdatedAt = 600, Info = []\<rparr> \<noteq>
   Size \<lparr>ParentPath = ''/a/'', Name = ''d'', Type = EntryDirectory, Size = 4096, State = 0,
         Sha1 = [], CreatedAt = 0, UpdatedAt = 0, Info = []\<rparr>"
  by (simp add: eval_defs)

section \<open>DeleteItem, ModifyItem, GetItem and the path\<close>

lemma DeleteItem_None:
  assumes "DeleteItem name s = (None, s')" and "filepath_Split name = k"
  shows "rows s' = filter (\<lambda>r. key r \<noteq> k) (rows s)"
  using assms db_Delete_None [of k s s'] by (cases k) (simp add: DeleteItem_def)

lemma ModifyItem_None:
  assumes "ModifyItem name infoMap s = (None, s')" and "filepath_Split name = k"
  shows "rows s' = map (\<lambda>r. if key r = k then fold set_column infoMap r else r) (rows s)"
  using assms db_Updates_None [of k infoMap s s'] by (cases k) (simp add: ModifyItem_def)

lemma fault_error_not_found: "fault_error f \<noteq> ErrRecordNotFound"
  by (cases f) simp_all

lemma GetItem_Inr:
  assumes "GetItem name s = (Inr r, s')" and "filepath_Split name = k"
  shows "find (\<lambda>r. key r = k) (rows s) = Some r"
  using assms
  by (cases k) (auto simp: GetItem_def db_First_def split: list.splits option.splits)

lemma GetItem_not_found:
  assumes "GetItem name s = (Inl ErrRecordNotFound, s')" and "filepath_Split name = k"
  shows "find (\<lambda>r. key r = k) (rows s) = None"
  using assms fault_error_not_found
  by (cases k) (auto simp: GetItem_def db_First_def split: list.splits option.splits)


text \<open>
  C6.  \<open>filepath_Split\<close> cuts a path after its last separator: the parent path is
  everything up to and including that separator (it is empty, or ends in the separator),
  the name is the rest and holds no separator.  The pair is the key every operation
  looks up: a successful \<open>DeleteItem\<close> removes the rows of that key and no other, a
  successful \<open>ModifyItem\<close> assigns to the rows of that key and to no other, \<open>GetItem\<close>
  returns the first row of that key and reports \<open>ErrRecordNotFound\<close> only when there is
  none, and \<open>RenameItem\<close>, on a store that does not fail, moves the row of the key its
  first path splits to onto the key its second path splits to, in either role.
\<close>

theorem split_defines_key:
  assumes "filepath_Split path = (d, n)"
  shows "path = d @ n \<and> CHR ''/'' \<notin> set n \<and> (d = [] \<or> last d = CHR ''/'') \<and>
    (DeleteItem path s = (None, s1) \<longrightarrow>
       rows s1 = filter (\<lambda>r. key r \<noteq> (d, n)) (rows s)) \<and>
    (ModifyItem path infoMap s = (None, s2) \<longrightarrow>
       rows s2 = map (\<lambda>r. if key r = (d, n) then fold set_column infoMap r else r) (rows s)) \<and>
    (GetItem path s = (Inr r, s3) \<longrightarrow> find (\<lambda>r. key r = (d, n)) (rows s) = Some r) \<and>
    (GetItem path s4 = (Inl ErrRecordNotFound, s5) \<longrightarrow>
       find (\<lambda>r. key r = (d, n)) (rows s4) = None) \<and>
    (faults s = [] \<longrightarrow> unique_index (rows s) \<longrightarrow> filepath_Split newPath = (nd, nn) \<longrightarrow>
       RenameItem path newPath s =
         (None, s\<lparr>rows :=
            (if (d, n) \<notin> key ` set (rows s) \<or> (d, n) = (nd, nn) then rows s
             else map (rekey (d, n) (nd, nn)) (filter (\<lambda>r. key r \<noteq> (nd, nn)) (rows s)))\<rparr>) \<and>
       RenameItem newPath path s =
         (None, s\<lparr>rows :=
            (if (nd, nn) \<notin> key ` set (rows s) \<or> (nd, nn) = (d, n) then rows s
             else map (rekey (nd, nn) (d, n)) (filter (\<lambda>r. key r \<noteq> (d, n)) (rows s)))\<rparr>))"
proof (intro conjI impI)
  show "path = d @ n" "CHR ''/'' \<notin> set n" "d = [] \<or> last d = CHR ''/''"
    using filepath_Split_parts [OF assms] by blast+
next
  assume "DeleteItem path s = (None, s1)"
  then show "rows s1 = filter (\<lambda>r. key r \<noteq> (d, n)) (rows s)"
    using assms by (rule DeleteItem_None)
next
  assume "ModifyItem path infoMap s = (None, s2)"
  then show "rows s2 = map (\<lambda>r. if key r = (d, n) then fold set_column infoMap r else r) (rows s)"
    using assms by (rule ModifyItem_None)
next
  assume "GetItem path s = (Inr r, s3)"
  then show "find (\<lambda>r. key r = (d, n)) (rows s) = Some r"
    using assms by (rule GetItem_Inr)
next
  assume "GetItem path s4 = (Inl ErrRecordNotFound, s5)"
  then show "find (\<lambda>r. key r = (d, n)) (rows s4) = None"
    using assms by (rule GetItem_not_found)
next
  assume a: "faults s = []" "unique_index (rows s)" "filepath_Split newPath = (nd, nn)"
  show "RenameItem path newPath s =
         (None, s\<lparr>rows :=
            (if (d, n) \<notin> key ` set (rows s) \<or> (d, n) = (nd, nn) then rows s
             else map (rekey (d, n) (nd, nn)) (filter (\<lambda>r. key r \<noteq> (nd, nn)) (rows s)))\<rparr>)"
    using a(1,2) assms a(3) by (rule RenameItem_no_fault)
  show "RenameItem newPath path s =
         (None, s\<lparr>rows :=
            (if (nd, nn) \<notin> key ` set (rows s) \<or> (nd, nn) = (d, n) then rows s
             else map (rekey (nd, nn) (d, n)) (filter (\<lambda>r. key r \<noteq> (d, n)) (rows s)))\<rparr>)"
    using a(1,2) a(3) assms by (rule RenameItem_no_fault)
qed

text \<open>
  The statement above at the path \<^verbatim>\<open>/a/b.txt\<close>.
\<close>

theorem split_defines_key_witness:
  "filepath_Split ''/a/b.txt'' = (''/a/'', ''b.txt'') \<and>
   ''/a/b.txt'' = ''/a/'' @ ''b.txt'' \<and> CHR ''/'' \<notin> set ''b.txt'' \<and>
   (''/a/'' = [] \<or> last ''/a/'' = CHR ''/'') \<and>
   DeleteItem ''/a/b.txt'' \<lparr>rows = [row_b, row_c, row_d], faults = []\<rparr> =
     (None, \<lparr>rows = [row_c, row_d], faults = []\<rparr>) \<and>
   rows \<lparr>rows = [row_c, row_d], faults = []\<rparr> =
     filter (\<lambda>r. key r \<noteq> (''/a/'', ''b.txt'')) (rows \<lparr>rows = [row_b, row_c, row_d], faults = []\<rparr>) \<and>
   ModifyItem ''/a/b.txt'' [Set_state 3] \<lparr>rows = [row_b, row_c, row_d], faults = []\<rparr> =
     (None, \<lparr>rows = [row_b\<lparr>State := 3\<rparr>, row_c, row_d], faults = []\<rparr>) \<and>
   rows \<lparr>rows = [row_b\<lparr>State := 3\<rparr>, row_c, row_d], faults = []\<rparr> =
     map (\<lambda>r. if key r = (''/a/'', ''b.txt'') then fold set_column [Set_state 3] r else r)
       (rows \<lparr>rows = [row_b, row_c, row_d], faults = []\<rparr>) \<and>
   GetItem ''/a/b.txt'' \<lparr>rows = [row_b, row_c, row_d], faults = []\<rparr> =
     (Inr row_b, \<lparr>rows = [row_b, row_c, row_d], faults = []\<rparr>) \<and>
   find (\<lambda>r. key r = (''/a/'', ''b.txt'')) (rows \<lparr>rows = [row_b, row_c, row_d], faults = []\<rparr>) =
     Some row_b \<and>
   GetItem ''/a/b.txt'' \<lparr>rows = [row_c], faults = []\<rparr> =
     (Inl ErrRecordNotFound, \<lparr>rows = [row_c], faults = []\<rparr>) \<and>
   find (\<lambda>r. key r = (''/a/'', ''b.txt'')) (rows \<lparr>rows = [row_c], faults = []\<rparr>) = None \<and>
   faults \<lparr>rows = [row_b, row_c, row_d], faults = []\<rparr> = [] \<and>
   unique_index (rows \<lparr>rows = [row_b, row_c, row_d], faults = []\<rparr>) \<and>
   filepath_Split ''/a/c.txt'' = (''/a/'', ''c.txt'') \<and>
   RenameItem ''/a/b.txt'' ''/a/c.txt'' \<lparr>rows = [row_b, row_c, row_d], faults = []\<rparr> =
     (None, \<lparr>rows = [row_b, row_c, row_d], faults = []\<rparr>\<lparr>rows :=
        (if (''/a/'', ''b.txt'') \<notin> key ` set (rows \<lparr>rows = [row_b, row_c, row_d], faults = []\<rparr>) \<or>
            (''/a/'', ''b.txt'') = (''/a/'', ''c.txt'')
         then rows \<lparr>rows = [row_b, row_c, row_d], faults = []\<rparr>
         else map (rekey (''/a/'', ''b.txt'') (''/a/'', ''c.txt''))
                (filter (\<lambda>r. key r \<noteq> (''/a/'', ''c.txt''))
                  (rows \<lparr>rows = [row_b, row_c, row_d], faults = []\<rparr>)))\<rparr>) \<and>
   RenameItem ''/a/c.txt'' ''/a/b.txt'' \<lparr>rows = [row_b, row_c, row_d], faults = []\<rparr> =
     (None, \<lparr>rows = [row_b, row_c, row_d], faults = []\<rparr>\<lparr>rows :=
        (if (''/a/'', ''c.txt'') \<notin> key ` set (rows \<lparr>rows = [row_b, row_c, row_d], faults = []\<rparr>) \<or>
            (''/a/'', ''c.txt'') = (''/a/'', ''b.txt'')
         then rows \<lparr>rows = [row_b, row_c, row_d], faults = []\<rparr>
         else map (rekey (''/a/'', ''c.txt'') (''/a/'', ''b.txt''))
                (filter (\<lambda>r. key r \<noteq> (''/a/'', ''b.txt''))
                  (rows \<lparr>rows = [row_b, row_c, row_d], faults = []\<rparr>)))\<rparr>)"
proof -
  have f: "faults \<lparr>rows = [row_b, row_c, row_d], faults = []\<rparr> = []" by simp
  from split_defines_key [OF split_b,
      where s = "\<lparr>rows = [row_b, row_c, row_d], faults = []\<rparr>"
        and ?s1.0 = "\<lparr>rows = [row_c, row_d], faults = []\<rparr>"
        and infoMap = "[Set_state 3]"
        and ?s2.0 = "\<lparr>rows = [row_b\<lparr>State := 3\<rparr>, row_c, row_d], faults = []\<rparr>"
        and r = row_b
        and ?s3.0 = "\<lparr>rows = [row_b, row_c, row_d], faults = []\<rparr>"
        and ?s4.0 = "\<lparr>rows = [row_c], faults = []\<rparr>"
        and ?s5.0 = "\<lparr>rows = [row_c], faults = []\<rparr>"
        and newPath = "''/a/c.txt''" and nd = "''/a/''" and nn = "''c.txt''"]
    split_b split_c delete_b modify_b get_b get_b_absent unique_bcd f
  show ?thesis by blast
qed

section \<open>RenameItem\<close>







text \<open>
  What the statement above leaves out.  Inside the transaction the source answers a failed
  update with \<open>return rd.Error\<close>, the error of the delete, which is nil there.  So when the
  store fails that update (the fourth statement of this run), the function passed to
  \<open>Transaction\<close> returns nil, the delete is committed alone and \<open>RenameItem\<close> reports
  success: the row at \<^verbatim>\<open>/a/c.txt\<close> is gone and the row at \<^verbatim>\<open>/a/b.txt\<close> has not moved.
\<close>

lemma RenameItem_failed_update_commits:
  "RenameItem ''/a/b.txt'' ''/a/c.txt''
      \<lparr>rows = [\<lparr>ParentPath = ''/a/'', Name = ''b.txt'', Type = EntryObject, Size = 10, State = 0,
                Sha1 = ''h1'', CreatedAt = 100, UpdatedAt = 100, Info = ''blob-b''\<rparr>,
               \<lparr>ParentPath = ''/a/'', Name = ''c.txt'', Type = EntryObject, Size = 20, State = 0,
                Sha1 = ''h2'', CreatedAt = 200, UpdatedAt = 200, Info = ''blob-c''\<rparr>],
       faults = [None, None, None, Some Unavailable]\<rparr> =
     (None,
      \<lparr>rows = [\<lparr>ParentPath = ''/a/'', Name = ''b.txt'', Type = EntryObject, Size = 10, State = 0,
                Sha1 = ''h1'', CreatedAt = 100, UpdatedAt = 100, Info = ''blob-b''\<rparr>],
       faults = []\<rparr>)"
  by (simp add: eval_defs)

text \<open>
  C4, amended.  A successful \<open>UpsertItem\<close> on a key that has a row leaves the row's
  \<open>created_at\<close> as it was and sets its \<open>updated_at\<close> to the time \<open>now\<close> read by the call.
  A successful \<open>RenameItem\<close> changes the two key columns at most: every row of the table
  afterwards is a row of the table before with its \<open>created_at\<close> and its \<open>updated_at\<close>
  unchanged.  A successful \<open>ModifyItem\<close> leaves \<open>created_at\<close> of every row unchanged unless
  its map assigns to \<open>created_at\<close>, and \<open>updated_at\<close> of every row unchanged unless its map
  assigns to \<open>updated_at\<close>.
\<close>

theorem timestamps_after_mutation:
  "(UpsertItem json_Unmarshal now curTime item s = (None, s1) \<longrightarrow>
      r \<in> set (rows s) \<longrightarrow> key r = key item \<longrightarrow>
      (\<exists>r1 \<in> set (rows s1). key r1 = key r \<and> CreatedAt r1 = CreatedAt r \<and> UpdatedAt r1 = now)) \<and>
   (RenameItem oldName newName s = (None, s2) \<longrightarrow> r2 \<in> set (rows s2) \<longrightarrow>
      (\<exists>r0 \<in> set (rows s). r2 = r0\<lparr>ParentPath := ParentPath r2, Name := Name r2\<rparr> \<and>
         CreatedAt r2 = CreatedAt r0 \<and> UpdatedAt r2 = UpdatedAt r0)) \<and>
   (ModifyItem name infoMap s = (None, s3) \<longrightarrow>
      (''created_at'' \<notin> column_of ` set infoMap \<longrightarrow>
         map CreatedAt (rows s3) = map CreatedAt (rows s)) \<and>
      (''updated_at'' \<notin> column_of ` set infoMap \<longrightarrow>
         map UpdatedAt (rows s3) = map UpdatedAt (rows s)))"
proof (intro conjI impI)
  assume u: "UpsertItem json_Unmarshal now curTime item s = (None, s1)"
    and r: "r \<in> set (rows s)" and k: "key r = key item"
  then have "list_ex (\<lambda>r. key r = key item) (rows s)"
    unfolding list_ex_iff by blast
  with u obtain info where
    "decoded json_Unmarshal item = Inr info" and
    r1: "rows s1 = map (\<lambda>r. if key r = key item
                             then r\<lparr>UpdatedAt := now, Sha1 := Fingerprint info,
                                   Size := Info.Size info, Info := Info item\<rparr>
                             else r) (rows s)"
    by (rule UpsertItem_conflict_rows)
  let ?r = "r\<lparr>UpdatedAt := now, Sha1 := Fingerprint info, Size := Info.Size info, Info := Info item\<rparr>"
  have "?r \<in> set (rows s1)"
    unfolding r1 using r k by (auto simp: image_iff intro!: bexI [of _ r])
  moreover have "key ?r = key r \<and> CreatedAt ?r = CreatedAt r \<and> UpdatedAt ?r = now"
    by simp
  ultimately show "\<exists>r1 \<in> set (rows s1). key r1 = key r \<and> CreatedAt r1 = CreatedAt r \<and> UpdatedAt r1 = now"
    by blast
next
  assume "RenameItem oldName newName s = (None, s2)" and r2: "r2 \<in> set (rows s2)"
  then have "same_but_key (rows s) (rows s2)" by (simp add: RenameItem_None)
  with r2 obtain r0 where r0: "r0 \<in> set (rows s)"
      "r2 = r0\<lparr>ParentPath := ParentPath r2, Name := Name r2\<rparr>"
    unfolding same_but_key_iff by blast
  have "CreatedAt r2 = CreatedAt r0 \<and> UpdatedAt r2 = UpdatedAt r0"
    by (subst r0(2), subst (2) r0(2)) simp
  with r0 show "\<exists>r0 \<in> set (rows s). r2 = r0\<lparr>ParentPath := ParentPath r2, Name := Name r2\<rparr> \<and>
         CreatedAt r2 = CreatedAt r0 \<and> UpdatedAt r2 = UpdatedAt r0"
    by blast
next
  assume m: "ModifyItem name infoMap s = (None, s3)"
    and c: "''created_at'' \<notin> column_of ` set infoMap"
  obtain k where k: "filepath_Split name = k" by simp
  show "map CreatedAt (rows s3) = map CreatedAt (rows s)"
    unfolding ModifyItem_None [OF m k] using c
    by (simp add: fold_set_column_CreatedAt)
next
  assume m: "ModifyItem name infoMap s = (None, s3)"
    and c: "''updated_at'' \<notin> column_of ` set infoMap"
  obtain k where k: "filepath_Split name = k" by simp
  show "map UpdatedAt (rows s3) = map UpdatedAt (rows s)"
    unfolding ModifyItem_None [OF m k] using c
    by (simp add: fold_set_column_UpdatedAt)
qed

text \<open>
  The statement above at one table: an upsert on the key of \<open>row_d\<close>, a rename of
  \<^verbatim>\<open>/a/b.txt\<close> onto \<^verbatim>\<open>/a/c.txt\<close>, and a \<open>ModifyItem\<close> of the state of \<^verbatim>\<open>/a/b.txt\<close>.
\<close>

theorem timestamps_after_mutation_witness:
  "UpsertItem (\<lambda>b. Inl ''invalid character'') 500 501 dir_d \<lparr>rows = [row_b, row_c, row_d], faults = []\<rparr> =
     (None, \<lparr>rows = [row_b, row_c, row_d\<lparr>Size := 0, UpdatedAt := 500\<rparr>], faults = []\<rparr>) \<and>
   row_d \<in> set (rows \<lparr>rows = [row_b, row_c, row_d], faults = []\<rparr>) \<and>
   key row_d = key dir_d \<and>
   (\<exists>r1 \<in> set (rows \<lparr>rows = [row_b, row_c, row_d\<lparr>Size := 0, UpdatedAt := 500\<rparr>], faults = []\<rparr>).
      key r1 = key row_d \<and> CreatedAt r1 = CreatedAt row_d \<and> UpdatedAt r1 = 500) \<and>
   RenameItem ''/a/b.txt'' ''/a/c.txt'' \<lparr>rows = [row_b, row_c, row_d], faults = []\<rparr> =
     (None, \<lparr>rows = [row_b\<lparr>Name := ''c.txt''\<rparr>, row_d], faults = []\<rparr>) \<and>
   row_b\<lparr>Name := ''c.txt''\<rparr> \<in> set (rows \<lparr>rows = [row_b\<lparr>Name := ''c.txt''\<rparr>, row_d], faults = []\<rparr>) \<and>
   (\<exists>r0 \<in> set (rows \<lparr>rows = [row_b, row_c, row_d], faults = []\<rparr>).
      row_b\<lparr>Name := ''c.txt''\<rparr> =
        r0\<lparr>ParentPath := ParentPath (row_b\<lparr>Name := ''c.txt''\<rparr>),
           Name := Name (row_b\<lparr>Name := ''c.txt''\<rparr>)\<rparr> \<and>
      CreatedAt (row_b\<lparr>Name := ''c.txt''\<rparr>) = CreatedAt r0 \<and>
      UpdatedAt (row_b\<lparr>Name := ''c.txt''\<rparr>) = UpdatedAt r0) \<and>
   ModifyItem ''/a/b.txt'' [Set_state 3] \<lparr>rows = [row_b, row_c, row_d], faults = []\<rparr> =
     (None, \<lparr>rows = [row_b\<lparr>State := 3\<rparr>, row_c, row_d], faults = []\<rparr>) \<and>
   ''created_at'' \<notin> column_of ` set [Set_state 3] \<and>
   ''updated_at'' \<notin> column_of ` set [Set_state 3] \<and>
   map CreatedAt (rows \<lparr>rows = [row_b\<lparr>State := 3\<rparr>, row_c, row_d], faults = []\<rparr>) =
     map CreatedAt (rows \<lparr>rows = [row_b, row_c, row_d], faults = []\<rparr>) \<and>
   map UpdatedAt (rows \<lparr>rows = [row_b\<lparr>State := 3\<rparr>, row_c, row_d], faults = []\<rparr>) =
     map UpdatedAt (rows \<lparr>rows = [row_b, row_c, row_d], faults = []\<rparr>)"
proof -
  have m: "row_d \<in> set (rows \<lparr>rows = [row_b, row_c, row_d], faults = []\<rparr>)" by simp
  have k: "key row_d = key dir_d" by (simp add: key_def row_d_def dir_d_def)
  have r: "row_b\<lparr>Name := ''c.txt''\<rparr> \<in>
      set (rows \<lparr>rows = [row_b\<lparr>Name := ''c.txt''\<rparr>, row_d], faults = []\<rparr>)" by simp
  have c: "''created_at'' \<notin> column_of ` set [Set_state 3]" by simp
  have u: "''updated_at'' \<notin> column_of ` set [Set_state 3]" by simp
  from timestamps_after_mutation
    [of "\<lambda>b. Inl ''invalid character''" 500 501 dir_d "\<lparr>rows = [row_b, row_c, row_d], faults = []\<rparr>"
      "\<lparr>rows = [row_b, row_c, row_d\<lparr>Size := 0, UpdatedAt := 500\<rparr>], faults = []\<rparr>" row_d
      "''/a/b.txt''" "''/a/c.txt''" "\<lparr>rows = [row_b\<lparr>Name := ''c.txt''\<rparr>, row_d], faults = []\<rparr>"
      "row_b\<lparr>Name := ''c.txt''\<rparr>" "''/a/b.txt''" "[Set_state 3]"
      "\<lparr>rows = [row_b\<lparr>State := 3\<rparr>, row_c, row_d], faults = []\<rparr>"]
    upsert_d rename_b_c modify_b m k r c u
  show ?thesis by blast
qed

text \<open>
  The spec has \<open>updated_at\<close> grow with every successful mutation.  A rename to a free
  key succeeds and leaves \<open>updated_at\<close> at 100, as it was.
\<close>

theorem Rename_updated_at_counterexample:
  "RenameItem ''/a/b.txt'' ''/a/e.txt''
      \<lparr>rows = [\<lparr>ParentPath = ''/a/'', Name = ''b.txt'', Type = EntryObject, Size = 10, State = 0,
                Sha1 = ''h1'', CreatedAt = 100, UpdatedAt = 100, Info = ''blob-b''\<rparr>],
       faults = []\<rparr> =
     (None,
      \<lparr>rows = [\<lparr>ParentPath = ''/a/'', Name = ''e.txt'', Type = EntryObject, Size = 10, State = 0,
                Sha1 = ''h1'', CreatedAt = 100, UpdatedAt = 100, Info = ''blob-b''\<rparr>],
       faults = []\<rparr>) \<and>
   \<not> UpdatedAt \<lparr>ParentPath = ''/a/'', Name = ''b.txt'', Type = EntryObject, Size = 10, State = 0,
                Sha1 = ''h1'', CreatedAt = 100, UpdatedAt = 100, Info = ''blob-b''\<rparr>
     < UpdatedAt \<lparr>ParentPath = ''/a/'', Name = ''e.txt'', Type = EntryObject, Size = 10, State = 0,
                Sha1 = ''h1'', CreatedAt = 100, UpdatedAt = 100, Info = ''blob-b''\<rparr>"
  by (simp add: eval_defs)

section \<open>GetAllItem and the read in one query\<close>




end
